theory Spec2Isabelle
  imports Main "HOL-Library.Word"
begin

section \<open>The command line and the package-level variables of main.go\<close>

text \<open>
  The value that \<^verbatim>\<open>app.Action\<close> receives: the flags of \<^verbatim>\<open>app.Flags\<close> (main.go, lines 63 to
  106) after parsing, one field per flag, named after the flag's long name. A string flag
  that is absent holds its default, a boolean flag that is absent is \<open>False\<close>, a string-slice
  flag that is absent is the empty list. The model covers the runs in which the command-line
  library hands the parsed flags to the action.
\<close>

record Context =
  flag_listen :: string
  flag_proxy :: string
  flag_endpoint :: string
  flag_endpoint_ips :: "string list"
  flag_dns_servers :: "string list"
  flag_edns :: string
  flag_no_pad :: bool
  flag_insecure :: bool
  flag_udp :: bool
  flag_tcp :: bool

text \<open>The context of a command line without any flag: the defaults of lines 63 to 106.\<close>

definition no_flags :: Context where
  "no_flags =
     \<lparr>flag_listen = '':5300'', flag_proxy = [],
      flag_endpoint = ''https://dns.google.com/resolve'',
      flag_endpoint_ips = [], flag_dns_servers = [], flag_edns = [],
      flag_no_pad = False, flag_insecure = False, flag_udp = False, flag_tcp = False\<rparr>"

text \<open>
  \<^verbatim>\<open>gdns.GDNSOptions\<close>, with the six fields main.go writes. The declaration is in package gdns;
  the element types of the two lists (\<^verbatim>\<open>net.IP\<close> and the endpoint type that
  \<^verbatim>\<open>gdns.ParseEndpoint\<close> returns) are type parameters.
\<close>

record ('ip, 'ep) GDNSOptions =
  PROXY :: string
  EDNS :: string
  Pad :: bool
  Secure :: bool
  EndpointIPs :: "'ip list"
  DNSServers :: "'ep list"

text \<open>
  What the process does that can be seen from outside main.go, in the order it happens:
  the calls into the logging, command-line, gdns and dns packages.
\<close>

datatype ('ip, 'ep, 'err, 'pv) effect =
    ShowAppHelp
  | LogUnparsableIP string
  | LogError 'err
  | LogEndpointIPs "'ip list"
  | LogDNSServers "'ep list"
  | CallNewGDNSProvider string "('ip, 'ep) GDNSOptions"
  | Exitln 'err
  | HandleFunc string 'pv

text \<open>
  The package-level variables of lines 18 to 26 (\<^verbatim>\<open>version\<close> is never written and is left
  out), and the effects so far.
\<close>

record ('ip, 'ep, 'err, 'pv) World =
  gdnsOPT :: "('ip, 'ep) GDNSOptions"
  gdnsEndPT :: string
  listenAddress :: string
  listenProtocols :: "string list"
  effects :: "('ip, 'ep, 'err, 'pv) effect list"

text \<open>Go's zero values: the state of the variables when \<^verbatim>\<open>main\<close> begins.\<close>

definition zero_GDNSOptions :: "('ip, 'ep) GDNSOptions" where
  "zero_GDNSOptions =
     \<lparr>PROXY = [], EDNS = [], Pad = False, Secure = False, EndpointIPs = [], DNSServers = []\<rparr>"

definition initial :: "('ip, 'ep, 'err, 'pv) World" where
  "initial =
     \<lparr>gdnsOPT = zero_GDNSOptions, gdnsEndPT = [], listenAddress = [], listenProtocols = [],
      effects = []\<rparr>"

definition emit ::
  "('ip, 'ep, 'err, 'pv) effect \<Rightarrow> ('ip, 'ep, 'err, 'pv) World \<Rightarrow> ('ip, 'ep, 'err, 'pv) World"
where
  "emit e w = w\<lparr>effects := effects w @ [e]\<rparr>"

text \<open>
  The three functions main.go calls to parse and to construct, which are not in main.go:
  \<^verbatim>\<open>net.ParseIP\<close> (nil is \<open>None\<close>), \<^verbatim>\<open>gdns.ParseEndpoint\<close> and \<^verbatim>\<open>gdns.NewGDNSProvider\<close>
  (a non-nil error is \<open>Inl\<close>). The model of main.go takes them as parameters.
\<close>

record ('ip, 'ep, 'err, 'pv) Env =
  ParseIP :: "string \<Rightarrow> 'ip option"
  ParseEndpoint :: "string \<Rightarrow> nat \<Rightarrow> 'err + 'ep"
  NewGDNSProvider :: "string \<Rightarrow> ('ip, 'ep) GDNSOptions \<Rightarrow> 'err + 'pv"

text \<open>
  A process either goes on with its state or has been ended by \<^verbatim>\<open>os.Exit\<close> with a status
  (\<^verbatim>\<open>glog.Exitln\<close> exits with status 1).
\<close>

datatype 'w outcome = Exited int 'w | Running 'w

section \<open>The action: lines 107 to 146\<close>

text \<open>Lines 127 to 133: the loop over the \<^verbatim>\<open>endpoint-ips\<close> strings.\<close>

fun range_endpoint_ips ::
  "('ip, 'ep, 'err, 'pv) Env \<Rightarrow> string list \<Rightarrow> ('ip, 'ep, 'err, 'pv) World
     \<Rightarrow> ('ip, 'ep, 'err, 'pv) World"
where
  "range_endpoint_ips env [] w = w"
| "range_endpoint_ips env (eip # rest) w =
     (case ParseIP env eip of
        None \<Rightarrow> range_endpoint_ips env rest (emit (LogUnparsableIP eip) w)
      | Some ip \<Rightarrow>
          range_endpoint_ips env rest
            (w\<lparr>gdnsOPT := (gdnsOPT w)\<lparr>EndpointIPs := EndpointIPs (gdnsOPT w) @ [ip]\<rparr>\<rparr>))"

text \<open>Lines 136 to 142: the loop over the \<^verbatim>\<open>dns-servers\<close> strings, default port 53.\<close>

fun range_dns_servers ::
  "('ip, 'ep, 'err, 'pv) Env \<Rightarrow> string list \<Rightarrow> ('ip, 'ep, 'err, 'pv) World
     \<Rightarrow> ('ip, 'ep, 'err, 'pv) World"
where
  "range_dns_servers env [] w = w"
| "range_dns_servers env (dns # rest) w =
     (case ParseEndpoint env dns 53 of
        Inl err \<Rightarrow> range_dns_servers env rest (emit (LogError err) w)
      | Inr d \<Rightarrow>
          range_dns_servers env rest
            (w\<lparr>gdnsOPT := (gdnsOPT w)\<lparr>DNSServers := DNSServers (gdnsOPT w) @ [d]\<rparr>\<rparr>))"

text \<open>
  The body of the action. Its first statement, \<^verbatim>\<open>glogGangstaShim(c)\<close>, sets the logging
  package up from the flags; it is defined outside main.go, touches none of the variables
  and is left out. \<^verbatim>\<open>os.Exit(0)\<close> in line 119 ends the process inside the action.
\<close>

definition Action ::
  "('ip, 'ep, 'err, 'pv) Env \<Rightarrow> Context \<Rightarrow> ('ip, 'ep, 'err, 'pv) World
     \<Rightarrow> ('ip, 'ep, 'err, 'pv) World outcome"
where
  "Action env c w0 =
     (let w1 = w0\<lparr>listenAddress := flag_listen c, gdnsEndPT := flag_endpoint c\<rparr>;
          w2 = (if flag_tcp c then w1\<lparr>listenProtocols := listenProtocols w1 @ [''tcp'']\<rparr> else w1);
          w3 = (if flag_udp c then w2\<lparr>listenProtocols := listenProtocols w2 @ [''udp'']\<rparr> else w2)
      in if 0 = length (listenProtocols w3) then Exited 0 (emit ShowAppHelp w3)
         else
           let w4 = w3\<lparr>gdnsOPT := (gdnsOPT w3)\<lparr>PROXY := flag_proxy c, EDNS := flag_edns c,
                         Pad := \<not> flag_no_pad c, Secure := \<not> flag_insecure c\<rparr>\<rparr>;
               w5 = range_endpoint_ips env (flag_endpoint_ips c) w4;
               w6 = emit (LogEndpointIPs (EndpointIPs (gdnsOPT w5))) w5;
               w7 = range_dns_servers env (flag_dns_servers c) w6;
               w8 = emit (LogDNSServers (DNSServers (gdnsOPT w7))) w7
           in Running w8)"

section \<open>Start-up: lines 148 to 157 of main\<close>

text \<open>
  \<^verbatim>\<open>app.Run\<close> runs the action; then the provider is constructed from the two variables the
  action has set, \<^verbatim>\<open>glog.Exitln\<close> ends the process when that fails, and otherwise the
  handler built on the provider is registered for the root zone.
\<close>

definition startup ::
  "('ip, 'ep, 'err, 'pv) Env \<Rightarrow> Context \<Rightarrow> ('ip, 'ep, 'err, 'pv) World outcome"
where
  "startup env c =
     (case Action env c initial of
        Exited n w \<Rightarrow> Exited n w
      | Running w \<Rightarrow>
          (let w' = emit (CallNewGDNSProvider (gdnsEndPT w) (gdnsOPT w)) w
           in case NewGDNSProvider env (gdnsEndPT w) (gdnsOPT w) of
                Inl err \<Rightarrow> Exited 1 (emit (Exitln err) w')
              | Inr provider \<Rightarrow> Running (emit (HandleFunc ''.'' provider) w')))"

section \<open>Serving: the goroutines of lines 28 to 49 and 159 to 173\<close>

text \<open>
  From line 160 on the process is concurrent: main, one goroutine per protocol that runs
  \<^verbatim>\<open>serve\<close> and then sends on \<^verbatim>\<open>servers\<close> (lines 162 to 165), and inside each \<^verbatim>\<open>serve\<close>
  one goroutine that runs \<^verbatim>\<open>ListenAndServe\<close> (lines 35 to 40). The model is an interleaving:
  a schedule is a list of events, each event lets one goroutine run up to its next
  communication, or is a communication, or comes from outside (a signal, the return of
  \<^verbatim>\<open>ListenAndServe\<close>). An event that cannot happen in a state leaves the state as it is.
\<close>

datatype signal = SIGINT | SIGTERM

text \<open>
  Where the goroutine of lines 162 to 165 stands:
  \<^item> \<open>AtNotify\<close>: started, before \<^verbatim>\<open>signal.Notify\<close> (line 32);
  \<^item> \<open>AtGo\<close>: its channel \<^verbatim>\<open>sig\<close> is registered for both signals, before the \<^verbatim>\<open>go\<close>
    statement of line 35;
  \<^item> \<open>AtReceive\<close>: the inner goroutine is started and \<^verbatim>\<open>serve\<close> is blocked in \<^verbatim>\<open><-sig\<close>
    (line 43);
  \<^item> \<open>AtShutdown\<close>: a value has been received from \<^verbatim>\<open>sig\<close>, before \<^verbatim>\<open>server.Shutdown()\<close>
    (line 46);
  \<^item> \<open>AtSend\<close>: \<^verbatim>\<open>serve\<close> has returned, blocked in \<^verbatim>\<open>servers <- true\<close> (line 164);
  \<^item> \<open>Done\<close>: the send has happened and the goroutine has ended.
\<close>

datatype serve_pc = AtNotify | AtGo | AtReceive | AtShutdown | AtSend | Done

text \<open>
  Where the goroutine of lines 35 to 40 stands: not started, inside \<^verbatim>\<open>ListenAndServe\<close>,
  blocked in \<^verbatim>\<open>sig <- syscall.SIGTERM\<close> after an error (line 38), or ended.
\<close>

datatype inner_pc = NotStarted | InListenAndServe | AtSendSIGTERM | Ended

record listener =
  net :: string
  addr :: string
  pc :: serve_pc
  inner :: inner_pc
  received :: "signal option"
  shutdown_called :: bool

text \<open>
  Where main stands: in start-up (lines 58 to 157), in the loop of line 161 with the
  protocols still to start, in the loop of line 169 with one element per receive still to
  do, or returned.
\<close>

datatype main_pc = Startup | Spawning "string list" | Waiting "string list" | MainReturned

text \<open>
  The process is alive, or ended with an exit status (\<^verbatim>\<open>os.Exit\<close>, or status 0 when main
  returns), or killed by a signal that no channel was registered for.
\<close>

datatype proc_status = Alive | Exit int | Killed signal

record ('ip, 'ep, 'err, 'pv) Process =
  world :: "('ip, 'ep, 'err, 'pv) World"
  main_pc :: main_pc
  listeners :: "listener list"
  proc :: proc_status

text \<open>
  The events of a schedule: main runs (\<open>MainStep\<close>); the goroutine of the listener with the
  given index runs (\<open>ServeStep\<close>); the \<^verbatim>\<open>ListenAndServe\<close> of that listener returns, with an
  error when the flag is true; the send of line 38 meets the receive of line 43
  (\<open>SendSIGTERM\<close>); the send of line 164 meets the receive of line 170 (\<open>SendServers\<close>); the
  operating system delivers a signal to the process.
\<close>

datatype event =
    MainStep
  | ServeStep nat
  | ListenAndServeReturns nat bool
  | SendSIGTERM nat
  | SendServers nat
  | Signal signal

text \<open>The goroutine that line 162 starts for \<^verbatim>\<open>serve(protocol, listenAddress)\<close>.\<close>

definition go_serve :: "string \<Rightarrow> string \<Rightarrow> listener" where
  "go_serve protocol address =
     \<lparr>net = protocol, addr = address, pc = AtNotify, inner = NotStarted, received = None,
      shutdown_called = False\<rparr>"

text \<open>
  Main runs to its next receive: one \<^verbatim>\<open>go\<close> statement of the loop of line 161, the passage
  to the loop of line 169, or, when that loop is over, the return of \<^verbatim>\<open>main\<close>, which ends
  the process. In front of \<^verbatim>\<open><-servers\<close> main is blocked.
\<close>

definition main_step :: "('ip, 'ep, 'err, 'pv) Process \<Rightarrow> ('ip, 'ep, 'err, 'pv) Process" where
  "main_step s =
     (case main_pc s of
        Startup \<Rightarrow> s
      | Spawning [] \<Rightarrow> s\<lparr>main_pc := Waiting (listenProtocols (world s))\<rparr>
      | Spawning (protocol # rest) \<Rightarrow>
          s\<lparr>listeners := listeners s @ [go_serve protocol (listenAddress (world s))],
            main_pc := Spawning rest\<rparr>
      | Waiting [] \<Rightarrow> s\<lparr>main_pc := MainReturned, proc := Exit 0\<rparr>
      | Waiting (x # rest) \<Rightarrow> s
      | MainReturned \<Rightarrow> s)"

text \<open>
  \<^verbatim>\<open>serve\<close> runs to its next communication: lines 29 to 34 (the registration), then the
  \<^verbatim>\<open>go\<close> statement of line 35 up to the receive of line 43, and after the receive lines 45
  to 48 (the call of \<^verbatim>\<open>Shutdown\<close>, whose error is only logged) and the return.
\<close>

definition serve_step :: "listener \<Rightarrow> listener" where
  "serve_step l =
     (case pc l of
        AtNotify \<Rightarrow> l\<lparr>pc := AtGo\<rparr>
      | AtGo \<Rightarrow> l\<lparr>pc := AtReceive, inner := InListenAndServe\<rparr>
      | AtReceive \<Rightarrow> l
      | AtShutdown \<Rightarrow> l\<lparr>shutdown_called := True, pc := AtSend\<rparr>
      | AtSend \<Rightarrow> l
      | Done \<Rightarrow> l)"

text \<open>
  Line 36: \<^verbatim>\<open>ListenAndServe\<close> returns, with an error (line 37 logs it and line 38 is next)
  or without (the goroutine ends).
\<close>

definition listen_returns :: "bool \<Rightarrow> listener \<Rightarrow> listener" where
  "listen_returns failed l =
     (if inner l = InListenAndServe
      then l\<lparr>inner := (if failed then AtSendSIGTERM else Ended)\<rparr>
      else l)"

text \<open>
  Line 38 meets line 43: \<^verbatim>\<open>sig\<close> has no buffer, so the send happens only with the receive
  of the same \<^verbatim>\<open>serve\<close>.
\<close>

definition send_sigterm :: "listener \<Rightarrow> listener" where
  "send_sigterm l =
     (if inner l = AtSendSIGTERM \<and> pc l = AtReceive
      then l\<lparr>pc := AtShutdown, received := Some SIGTERM, inner := Ended\<rparr>
      else l)"

text \<open>
  A signal from outside. Package \<^verbatim>\<open>os/signal\<close> sends it on every registered channel without
  blocking: a \<^verbatim>\<open>serve\<close> that is blocked in its receive gets it, for any other the send is
  dropped, since \<^verbatim>\<open>sig\<close> has no buffer. While no channel is registered the signal has its
  default effect and kills the process.
\<close>

definition deliver :: "signal \<Rightarrow> listener \<Rightarrow> listener" where
  "deliver sg l = (if pc l = AtReceive then l\<lparr>pc := AtShutdown, received := Some sg\<rparr> else l)"

definition step ::
  "event \<Rightarrow> ('ip, 'ep, 'err, 'pv) Process \<Rightarrow> ('ip, 'ep, 'err, 'pv) Process"
where
  "step e s =
     (if proc s \<noteq> Alive then s
      else case e of
        MainStep \<Rightarrow> main_step s
      | ServeStep i \<Rightarrow>
          (if i < length (listeners s)
           then s\<lparr>listeners := (listeners s)[i := serve_step (listeners s ! i)]\<rparr> else s)
      | ListenAndServeReturns i failed \<Rightarrow>
          (if i < length (listeners s)
           then s\<lparr>listeners := (listeners s)[i := listen_returns failed (listeners s ! i)]\<rparr>
           else s)
      | SendSIGTERM i \<Rightarrow>
          (if i < length (listeners s)
           then s\<lparr>listeners := (listeners s)[i := send_sigterm (listeners s ! i)]\<rparr> else s)
      | SendServers i \<Rightarrow>
          (case main_pc s of
             Waiting (x # rest) \<Rightarrow>
               (if i < length (listeners s) \<and> pc (listeners s ! i) = AtSend
                then s\<lparr>listeners := (listeners s)[i := (listeners s ! i)\<lparr>pc := Done\<rparr>],
                       main_pc := Waiting rest\<rparr>
                else s)
           | _ \<Rightarrow> s)
      | Signal sg \<Rightarrow>
          (if \<forall>l \<in> set (listeners s). pc l = AtNotify then s\<lparr>proc := Killed sg\<rparr>
           else s\<lparr>listeners := map (deliver sg) (listeners s)\<rparr>))"

fun run ::
  "event list \<Rightarrow> ('ip, 'ep, 'err, 'pv) Process \<Rightarrow> ('ip, 'ep, 'err, 'pv) Process"
where
  "run [] s = s"
| "run (e # es) s = run es (step e s)"

text \<open>The process at line 160, in front of the loop that starts the servers.\<close>

definition serving :: "('ip, 'ep, 'err, 'pv) World \<Rightarrow> ('ip, 'ep, 'err, 'pv) Process" where
  "serving w = \<lparr>world = w, main_pc = Spawning (listenProtocols w), listeners = [], proc = Alive\<rparr>"

text \<open>
  The whole of \<^verbatim>\<open>main\<close> under a schedule: start-up, and when start-up has not ended the
  process, the concurrent part.
\<close>

definition main ::
  "('ip, 'ep, 'err, 'pv) Env \<Rightarrow> Context \<Rightarrow> event list \<Rightarrow> ('ip, 'ep, 'err, 'pv) Process"
where
  "main env c schedule =
     (case startup env c of
        Exited n w \<Rightarrow> \<lparr>world = w, main_pc = Startup, listeners = [], proc = Exit n\<rparr>
      | Running w \<Rightarrow> run schedule (serving w))"

section \<open>What holds in every state of the concurrent part\<close>

text \<open>
  A listener has called \<^verbatim>\<open>Shutdown\<close> exactly when its \<^verbatim>\<open>serve\<close> has returned, has received a
  value from \<^verbatim>\<open>sig\<close> exactly when it is past line 43, and its inner goroutine exists exactly
  when it is past line 35. Main has started the protocols in order, and the receives it has
  done are as many as the goroutines that have ended. The process has exit status 0 exactly
  when main has returned, and a signal can only have killed it while no channel was
  registered.
\<close>

definition listener_ok :: "listener \<Rightarrow> bool" where
  "listener_ok l \<longleftrightarrow>
     (shutdown_called l \<longleftrightarrow> pc l = AtSend \<or> pc l = Done) \<and>
     (received l \<noteq> None \<longleftrightarrow> pc l = AtShutdown \<or> pc l = AtSend \<or> pc l = Done) \<and>
     (inner l = NotStarted \<longleftrightarrow> pc l = AtNotify \<or> pc l = AtGo)"

definition main_ok :: "('ip, 'ep, 'err, 'pv) Process \<Rightarrow> bool" where
  "main_ok s \<longleftrightarrow>
     (case main_pc s of
        Startup \<Rightarrow> False
      | Spawning ps \<Rightarrow>
          map net (listeners s) @ ps = listenProtocols (world s) \<and>
          (\<forall>l \<in> set (listeners s). pc l \<noteq> Done)
      | Waiting ps \<Rightarrow>
          map net (listeners s) = listenProtocols (world s) \<and>
          length ps + length (filter (\<lambda>l. pc l = Done) (listeners s)) = length (listeners s)
      | MainReturned \<Rightarrow>
          map net (listeners s) = listenProtocols (world s) \<and>
          (\<forall>l \<in> set (listeners s). pc l = Done))"

definition proc_ok :: "('ip, 'ep, 'err, 'pv) Process \<Rightarrow> bool" where
  "proc_ok s \<longleftrightarrow>
     (case proc s of
        Alive \<Rightarrow> main_pc s \<noteq> MainReturned
      | Exit n \<Rightarrow> n = 0 \<and> main_pc s = MainReturned
      | Killed sg \<Rightarrow> main_pc s \<noteq> MainReturned \<and> (\<forall>l \<in> set (listeners s). pc l = AtNotify))"

definition serving_inv :: "('ip, 'ep, 'err, 'pv) Process \<Rightarrow> bool" where
  "serving_inv s \<longleftrightarrow>
     main_ok s \<and> proc_ok s \<and>
     (\<forall>l \<in> set (listeners s). addr l = listenAddress (world s) \<and> listener_ok l)"

section \<open>An environment for the examples\<close>

text \<open>
  The examples below need the three outside functions at a few strings. These stand-ins
  agree with the real functions there: \<^verbatim>\<open>net.ParseIP\<close> accepts \<^verbatim>\<open>8.8.8.8\<close> and rejects
  \<^verbatim>\<open>bogus\<close>; parsing the endpoint URL \<^verbatim>\<open>:\<close> fails (it has no scheme), parsing the default
  URL succeeds. An address is its list of bytes, an endpoint an address with a port, an
  error its message, a provider the pair it was constructed from.
\<close>

type_synonym example_ip = "nat list"
type_synonym example_ep = "nat list \<times> nat"
type_synonym example_pv = "string \<times> (example_ip, example_ep) GDNSOptions"

definition example_ParseIP :: "string \<Rightarrow> example_ip option" where
  "example_ParseIP s = (if s = ''8.8.8.8'' then Some [8, 8, 8, 8] else None)"

definition example_ParseEndpoint :: "string \<Rightarrow> nat \<Rightarrow> string + example_ep" where
  "example_ParseEndpoint s port =
     (if s = ''8.8.8.8'' then Inr ([8, 8, 8, 8], port) else Inl ''unable to parse endpoint'')"

definition example_NewGDNSProvider ::
  "string \<Rightarrow> (example_ip, example_ep) GDNSOptions \<Rightarrow> string + example_pv"
where
  "example_NewGDNSProvider endpoint opts =
     (if endpoint = '':'' then Inl ''missing protocol scheme'' else Inr (endpoint, opts))"

definition example_env :: "(example_ip, example_ep, string, example_pv) Env" where
  "example_env =
     \<lparr>ParseIP = example_ParseIP, ParseEndpoint = example_ParseEndpoint,
      NewGDNSProvider = example_NewGDNSProvider\<rparr>"

section \<open>The handler of package gdns\<close>

text \<open>
  Modelled from the spec: the DNS messages of its data model (section 3). Package gdns,
  which declares them, is not under src/. A query and a response share their identity,
  the transaction ID and the question section; the query adds the EDNS0 buffer size, the
  DO bit and the client transport, the response adds the response code and the records.
\<close>

record Question =
  Name :: string
  QType :: "16 word"
  QClass :: "16 word"

record ResourceRecord =
  RName :: string
  RType :: "16 word"
  RClass :: "16 word"
  TTL :: "32 word"
  RDATA :: string

datatype Transport = UDP | TCP

record Identity =
  TransactionID :: "16 word"
  Question :: "Question list"

record InboundQuery = Identity +
  BufferSize :: "16 word"
  DO :: bool
  ClientTransport :: Transport

record OutboundResponse = Identity +
  ResponseCode :: "4 word"
  Answers :: "ResourceRecord list"

text \<open>
  Modelled from the spec: the answer of the upstream service (section 3) and the three
  errors a provider surfaces (sections 4.1, 4.3, 4.4 and 7); the provider code is not under
  src/. What the handler gets back from \<^verbatim>\<open>Provider.resolve\<close> under its deadline is an answer,
  one of the errors, or nothing in time.
\<close>

record UpstreamAnswer =
  Code :: "4 word"
  Records :: "ResourceRecord list"

datatype ProviderError = EndpointUnresolvable | TransportFailure | MalformedUpstreamResponse

datatype Resolution = Resolved UpstreamAnswer | Failed ProviderError | DeadlineExpired

text \<open>Modelled from the spec: the response code SERVFAIL of the glossary, 2 on the wire.\<close>

definition SERVFAIL :: "4 word" where
  "SERVFAIL = 2"

text \<open>
  Modelled from the spec: the response of section 3, assembled from the identity of the query
  and the upstream answer; the code that assembles it is not under src/.
\<close>

definition assemble :: "InboundQuery \<Rightarrow> UpstreamAnswer \<Rightarrow> OutboundResponse" where
  "assemble q a =
     \<lparr>TransactionID = TransactionID q, Question = Question q, ResponseCode = Code a,
      Answers = Records a\<rparr>"

text \<open>
  Modelled from the spec: the synthesized response of section 4.6, with response code
  SERVFAIL, echoing the transaction ID and the question of the query.
\<close>

definition servfail :: "InboundQuery \<Rightarrow> OutboundResponse" where
  "servfail q =
     \<lparr>TransactionID = TransactionID q, Question = Question q, ResponseCode = SERVFAIL,
      Answers = []\<rparr>"

text \<open>
  Modelled from the spec: \<^verbatim>\<open>Handler.Handle\<close> (section 4.6), which is not under src/. A message
  that does not have exactly one question is rejected without a call of the provider and
  answered with SERVFAIL (testable property 7). Otherwise the provider is invoked under the
  deadline; on success its response is written, on a provider error or on expiry of the
  deadline the synthesized SERVFAIL response is written instead. The result is the response
  written to the client.
\<close>

definition Handle :: "(InboundQuery \<Rightarrow> Resolution) \<Rightarrow> InboundQuery \<Rightarrow> OutboundResponse" where
  "Handle resolve q =
     (if length (Question q) \<noteq> 1 then servfail q
      else case resolve q of
             Resolved a \<Rightarrow> assemble q a
           | Failed e \<Rightarrow> servfail q
           | DeadlineExpired \<Rightarrow> servfail q)"

text \<open>A query for the examples: \<^verbatim>\<open>example.com A IN\<close> over UDP, with ID 4660.\<close>

definition example_query :: InboundQuery where
  "example_query =
     \<lparr>TransactionID = 4660, Question = [\<lparr>Name = ''example.com.'', QType = 1, QClass = 1\<rparr>],
      BufferSize = 512, DO = False, ClientTransport = UDP\<rparr>"

text \<open>A provider for the examples, whose transport fails on every address.\<close>

definition failing_provider :: "InboundQuery \<Rightarrow> Resolution" where
  "failing_provider q = Failed TransportFailure"

section \<open>The provider of package gdns and the configuration it shares with main\<close>

text \<open>
  Modelled from the spec: the endpoint resolver of section 4.1, which is not under src/. With
  a static IP list in the configuration it returns that list verbatim; otherwise the cached
  address set when there is one; otherwise it looks the endpoint host up with the configured
  DNS servers, caches and returns the addresses when there are some, and signals
  \<open>EndpointUnresolvable\<close> when there is none. The look-up itself is a parameter. The result
  comes with the cache as it is afterwards.
\<close>

definition Resolver_resolve ::
  "('ep list \<Rightarrow> 'ip list) \<Rightarrow> ('ip, 'ep) GDNSOptions \<Rightarrow> 'ip list option
     \<Rightarrow> (ProviderError + 'ip list) \<times> 'ip list option"
where
  "Resolver_resolve lookup config cache =
     (if EndpointIPs config \<noteq> [] then (Inr (EndpointIPs config), cache)
      else case cache of
             Some ips \<Rightarrow> (Inr ips, cache)
           | None \<Rightarrow>
               (case lookup (DNSServers config) of
                  [] \<Rightarrow> (Inl EndpointUnresolvable, None)
                | ip # ips \<Rightarrow> (Inr (ip # ips), Some (ip # ips))))"

text \<open>
  Modelled from the spec: the retry policy of section 4.5. The addresses are tried in their
  order; the first answer is the result; a transport failure goes on with the next address and,
  when none is left, is the result; any other error is surfaced at once. What encoder,
  transport and decoder make of one address is a parameter.
\<close>

fun try_addresses :: "('ip \<Rightarrow> ProviderError + UpstreamAnswer) \<Rightarrow> 'ip list \<Rightarrow> Resolution" where
  "try_addresses exchange [] = Failed TransportFailure"
| "try_addresses exchange (ip # rest) =
     (case exchange ip of
        Inr a \<Rightarrow> Resolved a
      | Inl TransportFailure \<Rightarrow> try_addresses exchange rest
      | Inl e \<Rightarrow> Failed e)"

text \<open>
  Modelled from the spec: \<^verbatim>\<open>Provider.resolve\<close> of section 4.5, which is not under src/: the
  endpoint resolver, then encoder, transport and decoder on the addresses it returned.
  Encoder and transport take the configuration as an argument (sections 4.2 and 4.3), so
  the exchange with one address is a function of the configuration, the query and the
  address. The result comes with the address cache as it is afterwards.
\<close>

definition Provider_resolve ::
  "('ep list \<Rightarrow> 'ip list) \<Rightarrow>
   (('ip, 'ep) GDNSOptions \<Rightarrow> InboundQuery \<Rightarrow> 'ip \<Rightarrow> ProviderError + UpstreamAnswer) \<Rightarrow>
   ('ip, 'ep) GDNSOptions \<Rightarrow> 'ip list option \<Rightarrow> InboundQuery \<Rightarrow> Resolution \<times> 'ip list option"
where
  "Provider_resolve lookup exchange config cache q =
     (case Resolver_resolve lookup config cache of
        (Inl e, cache') \<Rightarrow> (Failed e, cache')
      | (Inr ips, cache') \<Rightarrow> (try_addresses (exchange config q) ips, cache'))"

text \<open>
  Modelled from the spec: the process together with what the provider owns (section 3).
  main.go hands the constructor the address of \<^verbatim>\<open>gdnsOPT\<close> (line 151), so the configuration
  the provider owns is that variable itself and not a copy: a task of the provider reads
  the variable as it is at the moment of the query, and would see any later write to it.
  The configuration is immutable (section 3), so the constructor and the tasks only read
  it. Besides it the provider owns the cached address set of the endpoint, absent until a
  look-up has succeeded. The other two fields keep, in order, the configuration each call of
  the provider has read and the response written for each query.
\<close>

record ('ip, 'ep, 'err, 'pv) Engine =
  process :: "('ip, 'ep, 'err, 'pv) Process"
  EndpointAddressSet :: "'ip list option"
  consumed :: "('ip, 'ep) GDNSOptions list"
  written :: "(InboundQuery \<times> OutboundResponse) list"

text \<open>
  Modelled from the spec: one query task (sections 4.6 and 5). The handler answers a message
  that does not have exactly one question without a call of the provider: nothing is read,
  nothing cached, and the result of the provider is not used. Otherwise the provider is
  called with the configuration read through its pointer, and the handler writes its
  answer, or SERVFAIL on an error or when the deadline has expired.
\<close>

definition serve_query ::
  "InboundQuery \<Rightarrow> ('ep list \<Rightarrow> 'ip list) \<Rightarrow>
   (('ip, 'ep) GDNSOptions \<Rightarrow> InboundQuery \<Rightarrow> 'ip \<Rightarrow> ProviderError + UpstreamAnswer) \<Rightarrow> bool \<Rightarrow>
   ('ip, 'ep, 'err, 'pv) Engine \<Rightarrow> ('ip, 'ep, 'err, 'pv) Engine"
where
  "serve_query q lookup exchange expired s =
     (let config = gdnsOPT (world (process s));
          (r, cache) = Provider_resolve lookup exchange config (EndpointAddressSet s) q;
          called = (length (Question q) = 1)
      in s\<lparr>EndpointAddressSet := (if called then cache else EndpointAddressSet s),
           consumed := (if called then consumed s @ [config] else consumed s),
           written := written s @
             [(q, Handle (\<lambda>q. if expired then DeadlineExpired else r) q)]\<rparr>)"

text \<open>
  Modelled from the spec: the events of the whole. Queries are independent tasks in no
  order relative to each other (section 5), so an event is an event of the process as above,
  or a query that arrives at the listener with the given index, with what the network will
  do for it: the look-up of the endpoint host, the exchange with an address, whether the
  deadline expires first.
\<close>

datatype ('ip, 'ep) engine_event =
    ProcessEvent event
  | Query nat InboundQuery "'ep list \<Rightarrow> 'ip list"
      "('ip, 'ep) GDNSOptions \<Rightarrow> InboundQuery \<Rightarrow> 'ip \<Rightarrow> ProviderError + UpstreamAnswer" bool

text \<open>
  Modelled from the spec: one event. An event of the process moves the process and leaves
  what the provider owns as it is. A query is served while the process is alive and
  \<^verbatim>\<open>ListenAndServe\<close> of its listener runs; otherwise nothing happens.
\<close>

definition engine_step ::
  "('ip, 'ep) engine_event \<Rightarrow> ('ip, 'ep, 'err, 'pv) Engine \<Rightarrow> ('ip, 'ep, 'err, 'pv) Engine"
where
  "engine_step e s =
     (case e of
        ProcessEvent e' \<Rightarrow> s\<lparr>process := step e' (process s)\<rparr>
      | Query i q lookup exchange expired \<Rightarrow>
          (if proc (process s) = Alive \<and> i < length (listeners (process s)) \<and>
              inner (listeners (process s) ! i) = InListenAndServe
           then serve_query q lookup exchange expired s
           else s))"

text \<open>Modelled from the spec: the events of a schedule, one after the other.\<close>

fun engine_run ::
  "('ip, 'ep) engine_event list \<Rightarrow> ('ip, 'ep, 'err, 'pv) Engine \<Rightarrow> ('ip, 'ep, 'err, 'pv) Engine"
where
  "engine_run [] s = s"
| "engine_run (e # es) s = engine_run es (engine_step e s)"

text \<open>
  Modelled from the spec: the whole under a schedule. It starts with \<^verbatim>\<open>main\<close> at line 160
  (or at its exit during start-up) and a provider that has cached, read and answered nothing
  yet; then come the events of the schedule.
\<close>

definition engine ::
  "('ip, 'ep, 'err, 'pv) Env \<Rightarrow> Context \<Rightarrow> ('ip, 'ep) engine_event list
     \<Rightarrow> ('ip, 'ep, 'err, 'pv) Engine"
where
  "engine env c schedule =
     engine_run schedule
       \<lparr>process = main env c [], EndpointAddressSet = None, consumed = [], written = []\<rparr>"

text \<open>For the examples: a look-up that finds one address, and an upstream that answers.\<close>

definition example_lookup :: "example_ep list \<Rightarrow> example_ip list" where
  "example_lookup servers = [[8, 8, 4, 4]]"

definition example_exchange ::
  "(example_ip, example_ep) GDNSOptions \<Rightarrow> InboundQuery \<Rightarrow> example_ip
     \<Rightarrow> ProviderError + UpstreamAnswer"
where
  "example_exchange config q ip =
     Inr \<lparr>Code = 0,
          Records = [\<lparr>RName = ''example.com.'', RType = 1, RClass = 1, TTL = 300,
                      RDATA = ''93.184.216.34''\<rparr>]\<rparr>"

section \<open>What the action leaves behind\<close>

lemma range_endpoint_ips_gdnsOPT:
  "gdnsOPT (range_endpoint_ips env xs w) =
     (gdnsOPT w)\<lparr>EndpointIPs := EndpointIPs (gdnsOPT w) @ List.map_filter (ParseIP env) xs\<rparr>"
  by (induction xs arbitrary: w) (auto simp: emit_def split: option.splits)

lemma range_endpoint_ips_effects:
  "effects (range_endpoint_ips env xs w) =
     effects w @ map LogUnparsableIP (filter (\<lambda>s. ParseIP env s = None) xs)"
  by (induction xs arbitrary: w) (auto simp: emit_def split: option.splits)

lemma range_endpoint_ips_rest:
  "gdnsEndPT (range_endpoint_ips env xs w) = gdnsEndPT w"
  "listenAddress (range_endpoint_ips env xs w) = listenAddress w"
  "listenProtocols (range_endpoint_ips env xs w) = listenProtocols w"
  by (induction xs arbitrary: w) (auto simp: emit_def split: option.splits)

lemma range_dns_servers_gdnsOPT:
  "gdnsOPT (range_dns_servers env xs w) =
     (gdnsOPT w)\<lparr>DNSServers := DNSServers (gdnsOPT w) @
        List.map_filter (\<lambda>s. case ParseEndpoint env s 53 of Inl err \<Rightarrow> None | Inr d \<Rightarrow> Some d) xs\<rparr>"
  by (induction xs arbitrary: w) (auto simp: emit_def split: sum.splits)

lemma range_dns_servers_effects:
  "effects (range_dns_servers env xs w) =
     effects w @
     List.map_filter (\<lambda>s. case ParseEndpoint env s 53 of Inl err \<Rightarrow> Some (LogError err) | Inr d \<Rightarrow> None) xs"
  by (induction xs arbitrary: w) (auto simp: emit_def split: sum.splits)

lemma range_dns_servers_rest:
  "gdnsEndPT (range_dns_servers env xs w) = gdnsEndPT w"
  "listenAddress (range_dns_servers env xs w) = listenAddress w"
  "listenProtocols (range_dns_servers env xs w) = listenProtocols w"
  by (induction xs arbitrary: w) (auto simp: emit_def split: sum.splits)

lemmas range_simps =
  range_endpoint_ips_gdnsOPT range_endpoint_ips_effects range_endpoint_ips_rest
  range_dns_servers_gdnsOPT range_dns_servers_effects range_dns_servers_rest

lemma Action_Exited:
  assumes "Action env c initial = Exited n w"
  shows "\<not> flag_tcp c" "\<not> flag_udp c" "n = 0" "effects w = [ShowAppHelp]"
    "listenProtocols w = []"
  using assms by (auto simp: Action_def Let_def initial_def emit_def split: if_splits)

lemma Action_no_protocol:
  assumes "\<not> flag_tcp c" "\<not> flag_udp c"
  shows "\<exists>w. Action env c initial = Exited 0 w \<and> effects w = [ShowAppHelp]"
  using assms by (simp add: Action_def Let_def initial_def emit_def)

lemma Action_Running:
  assumes "Action env c initial = Running w"
  shows "flag_tcp c \<or> flag_udp c"
    and "gdnsOPT w =
      \<lparr>PROXY = flag_proxy c, EDNS = flag_edns c, Pad = (\<not> flag_no_pad c),
       Secure = (\<not> flag_insecure c),
       EndpointIPs = List.map_filter (ParseIP env) (flag_endpoint_ips c),
       DNSServers = List.map_filter
         (\<lambda>s. case ParseEndpoint env s 53 of Inl err \<Rightarrow> None | Inr d \<Rightarrow> Some d)
         (flag_dns_servers c)\<rparr>"
    and "gdnsEndPT w = flag_endpoint c"
    and "listenAddress w = flag_listen c"
    and "listenProtocols w =
      (if flag_tcp c then [''tcp''] else []) @ (if flag_udp c then [''udp''] else [])"
    and "effects w =
      map LogUnparsableIP (filter (\<lambda>s. ParseIP env s = None) (flag_endpoint_ips c)) @
      [LogEndpointIPs (List.map_filter (ParseIP env) (flag_endpoint_ips c))] @
      List.map_filter
        (\<lambda>s. case ParseEndpoint env s 53 of Inl err \<Rightarrow> Some (LogError err) | Inr d \<Rightarrow> None)
        (flag_dns_servers c) @
      [LogDNSServers (List.map_filter
         (\<lambda>s. case ParseEndpoint env s 53 of Inl err \<Rightarrow> None | Inr d \<Rightarrow> Some d)
         (flag_dns_servers c))]"
  using assms
  by (auto simp: Action_def Let_def initial_def emit_def zero_GDNSOptions_def range_simps
      split: if_splits)

lemma Action_some_protocol:
  assumes "flag_tcp c \<or> flag_udp c"
  shows "\<exists>w. Action env c initial = Running w"
  using assms by (auto simp: Action_def Let_def initial_def)

section \<open>What start-up leaves behind\<close>

lemma startup_Exited:
  assumes "startup env c = Exited n w"
  shows "(\<not> flag_tcp c \<and> \<not> flag_udp c \<and> n = 0 \<and> effects w = [ShowAppHelp]) \<or>
         (\<exists>w0 err. Action env c initial = Running w0 \<and>
            NewGDNSProvider env (gdnsEndPT w0) (gdnsOPT w0) = Inl err \<and> n = 1 \<and>
            w = emit (Exitln err) (emit (CallNewGDNSProvider (gdnsEndPT w0) (gdnsOPT w0)) w0))"
proof (cases "Action env c initial")
  case (Exited m v)
  with assms have "m = n" "v = w" by (simp_all add: startup_def)
  with Exited Action_Exited [of env c n w] show ?thesis by simp
next
  case (Running w0)
  with assms show ?thesis
    by (auto simp: startup_def Let_def split: sum.splits)
qed

lemma startup_Running:
  assumes "startup env c = Running w"
  shows "\<exists>w0 provider. Action env c initial = Running w0 \<and>
            NewGDNSProvider env (gdnsEndPT w0) (gdnsOPT w0) = Inr provider \<and>
            w = emit (HandleFunc ''.'' provider)
                  (emit (CallNewGDNSProvider (gdnsEndPT w0) (gdnsOPT w0)) w0)"
  using assms
  by (cases "Action env c initial") (auto simp: startup_def Let_def split: sum.splits)

lemma Action_effects_no_call:
  assumes "Action env c initial = Running w0"
  shows "CallNewGDNSProvider endpoint opts \<notin> set (effects w0)"
  unfolding Action_Running(6) [OF assms]
  by (auto simp: List.map_filter_def split: sum.splits)

section \<open>The concurrent part never writes the variables\<close>

lemma world_step: "world (step e s) = world s"
  by (cases e) (auto simp: step_def main_step_def split: main_pc.splits list.splits)

lemma world_run: "world (run es s) = world s"
  by (induction es arbitrary: s) (simp_all add: world_step)

lemma step_not_Alive: "proc s \<noteq> Alive \<Longrightarrow> step e s = s"
  by (simp add: step_def)

lemma run_append: "run (es @ es') s = run es' (run es s)"
  by (induction es arbitrary: s) simp_all

lemma world_main:
  "world (main env c schedule) = (case startup env c of Exited n w \<Rightarrow> w | Running w \<Rightarrow> w)"
  by (simp add: main_def world_run serving_def split: outcome.splits)

lemma call_in_main_effects:
  assumes "CallNewGDNSProvider endpoint opts \<in> set (effects (world (main env c schedule)))"
  shows "\<exists>w0. Action env c initial = Running w0 \<and> endpoint = gdnsEndPT w0 \<and> opts = gdnsOPT w0"
proof (cases "startup env c")
  case (Exited n w)
  with assms have mem: "CallNewGDNSProvider endpoint opts \<in> set (effects w)"
    by (simp add: world_main)
  from startup_Exited [OF Exited] show ?thesis
  proof
    assume "\<not> flag_tcp c \<and> \<not> flag_udp c \<and> n = 0 \<and> effects w = [ShowAppHelp]"
    with mem show ?thesis by simp
  next
    assume "\<exists>w0 err. Action env c initial = Running w0 \<and>
            NewGDNSProvider env (gdnsEndPT w0) (gdnsOPT w0) = Inl err \<and> n = 1 \<and>
            w = emit (Exitln err) (emit (CallNewGDNSProvider (gdnsEndPT w0) (gdnsOPT w0)) w0)"
    then obtain w0 err where a: "Action env c initial = Running w0"
      and w: "w = emit (Exitln err) (emit (CallNewGDNSProvider (gdnsEndPT w0) (gdnsOPT w0)) w0)"
      by blast
    from mem w Action_effects_no_call [OF a, of endpoint opts] a show ?thesis
      by (auto simp: emit_def)
  qed
next
  case (Running w)
  with assms have mem: "CallNewGDNSProvider endpoint opts \<in> set (effects w)"
    by (simp add: world_main)
  from startup_Running [OF Running] obtain w0 provider
    where a: "Action env c initial = Running w0"
      and w: "w = emit (HandleFunc ''.'' provider)
                  (emit (CallNewGDNSProvider (gdnsEndPT w0) (gdnsOPT w0)) w0)"
    by blast
  from mem w Action_effects_no_call [OF a, of endpoint opts] a show ?thesis
    by (auto simp: emit_def)
qed

section \<open>The invariant of the concurrent part\<close>

lemma serving_inv_serving: "serving_inv (serving w)"
  by (simp add: serving_inv_def main_ok_def proc_ok_def serving_def)

lemma count_update_new:
  "i < length xs \<Longrightarrow> \<not> P (xs ! i) \<Longrightarrow> P y \<Longrightarrow>
     length (filter P (xs[i := y])) = Suc (length (filter P xs))"
proof (induction xs arbitrary: i)
  case Nil
  then show ?case by simp
next
  case (Cons x xs)
  then show ?case by (cases i) auto
qed

lemma count_update_same:
  "i < length xs \<Longrightarrow> P y = P (xs ! i) \<Longrightarrow>
     length (filter P (xs[i := y])) = length (filter P xs)"
proof (induction xs arbitrary: i)
  case Nil
  then show ?case by simp
next
  case (Cons x xs)
  then show ?case by (cases i) auto
qed

lemma map_update_same:
  "i < length xs \<Longrightarrow> f y = f (xs ! i) \<Longrightarrow> map f (xs[i := y]) = map f xs"
  by (simp add: map_update list_update_same_conv)

lemma all_update:
  "\<forall>l \<in> set xs. Q l \<Longrightarrow> Q y \<Longrightarrow> \<forall>l \<in> set (xs[i := y]). Q l"
proof
  fix l
  assume a: "\<forall>l \<in> set xs. Q l" "Q y" and "l \<in> set (xs[i := y])"
  with set_update_subset_insert [of xs i y] have "l = y \<or> l \<in> set xs" by blast
  with a show "Q l" by blast
qed

text \<open>A step of one listener that keeps its name and address and does not reach \<open>Done\<close>.\<close>

lemma serving_inv_local:
  assumes inv: "serving_inv s" and alive: "proc s = Alive" and i: "i < length (listeners s)"
    and net: "net l' = net (listeners s ! i)" and addr: "addr l' = addr (listeners s ! i)"
    and ok: "listener_ok l'"
    and fin: "(pc l' = Done) = (pc (listeners s ! i) = Done)"
  shows "serving_inv (s\<lparr>listeners := (listeners s)[i := l']\<rparr>)"
proof -
  let ?s' = "s\<lparr>listeners := (listeners s)[i := l']\<rparr>"
  from i have mem: "listeners s ! i \<in> set (listeners s)" by simp
  have names: "map net (listeners ?s') = map net (listeners s)"
    using i net by (simp add: map_update_same)
  have cnt: "length (filter (\<lambda>l. pc l = Done) (listeners ?s')) =
             length (filter (\<lambda>l. pc l = Done) (listeners s))"
    using i fin by (simp add: count_update_same)
  have "main_ok ?s'"
  proof (cases "main_pc s")
    case Startup
    with inv show ?thesis by (simp add: serving_inv_def main_ok_def)
  next
    case (Spawning ps)
    with inv have a: "map net (listeners s) @ ps = listenProtocols (world s)"
      and b: "\<forall>l \<in> set (listeners s). pc l \<noteq> Done"
      by (simp_all add: serving_inv_def main_ok_def)
    from b mem fin have "pc l' \<noteq> Done" by simp
    with b have "\<forall>l \<in> set ((listeners s)[i := l']). pc l \<noteq> Done" by (rule all_update)
    with a names Spawning show ?thesis by (simp add: main_ok_def)
  next
    case (Waiting ps)
    with inv names cnt show ?thesis by (simp add: serving_inv_def main_ok_def)
  next
    case MainReturned
    with inv alive show ?thesis by (simp add: serving_inv_def proc_ok_def)
  qed
  moreover have "proc_ok ?s'"
    using inv alive by (simp add: serving_inv_def proc_ok_def)
  moreover have "\<forall>l \<in> set (listeners ?s'). addr l = listenAddress (world ?s') \<and> listener_ok l"
  proof -
    from inv have all: "\<forall>l \<in> set (listeners s). addr l = listenAddress (world s) \<and> listener_ok l"
      by (simp add: serving_inv_def)
    with mem addr ok have "addr l' = listenAddress (world s) \<and> listener_ok l'" by simp
    with all have "\<forall>l \<in> set ((listeners s)[i := l']). addr l = listenAddress (world s) \<and> listener_ok l"
      by (rule all_update)
    then show ?thesis by simp
  qed
  ultimately show ?thesis by (simp add: serving_inv_def)
qed

lemma listener_ok_serve_step: "listener_ok l \<Longrightarrow> listener_ok (serve_step l)"
  by (cases "pc l") (simp_all add: listener_ok_def serve_step_def)

lemma listener_ok_listen_returns: "listener_ok l \<Longrightarrow> listener_ok (listen_returns failed l)"
  by (cases "pc l") (simp_all add: listener_ok_def listen_returns_def)

lemma listener_ok_send_sigterm: "listener_ok l \<Longrightarrow> listener_ok (send_sigterm l)"
  by (cases "pc l") (simp_all add: listener_ok_def send_sigterm_def)

lemma listener_ok_deliver: "listener_ok l \<Longrightarrow> listener_ok (deliver sg l)"
  by (cases "pc l") (simp_all add: listener_ok_def deliver_def)

lemma serve_step_frame:
  "net (serve_step l) = net l" "addr (serve_step l) = addr l"
  "(pc (serve_step l) = Done) = (pc l = Done)"
  by (auto simp: serve_step_def split: serve_pc.splits)

lemma listen_returns_frame:
  "net (listen_returns failed l) = net l" "addr (listen_returns failed l) = addr l"
  "pc (listen_returns failed l) = pc l"
  by (auto simp: listen_returns_def)

lemma send_sigterm_frame:
  "net (send_sigterm l) = net l" "addr (send_sigterm l) = addr l"
  "(pc (send_sigterm l) = Done) = (pc l = Done)"
  by (auto simp: send_sigterm_def)

lemma deliver_frame:
  "net (deliver sg l) = net l" "addr (deliver sg l) = addr l"
  "(pc (deliver sg l) = Done) = (pc l = Done)"
  by (auto simp: deliver_def)

lemma count_full:
  "length (filter P xs) = length xs \<Longrightarrow> x \<in> set xs \<Longrightarrow> P x"
proof (induction xs)
  case Nil
  then show ?case by simp
next
  case (Cons y ys)
  have py: "P y"
  proof (rule ccontr)
    assume "\<not> P y"
    with Cons.prems(1) have "length (filter P ys) = Suc (length ys)" by simp
    with length_filter_le [of P ys] show False by simp
  qed
  with Cons.prems(1) have "length (filter P ys) = length ys" by simp
  then have "x \<in> set ys \<Longrightarrow> P x" by (rule Cons.IH)
  with py Cons.prems(2) show ?case by auto
qed

lemma serving_inv_main_step:
  assumes inv: "serving_inv s" and alive: "proc s = Alive"
  shows "serving_inv (main_step s)"
proof (cases "main_pc s")
  case Startup
  with inv show ?thesis by (simp add: serving_inv_def main_ok_def)
next
  case (Spawning ps)
  with inv have a: "map net (listeners s) @ ps = listenProtocols (world s)"
    and b: "\<forall>l \<in> set (listeners s). pc l \<noteq> Done"
    and c: "\<forall>l \<in> set (listeners s). addr l = listenAddress (world s) \<and> listener_ok l"
    by (simp_all add: serving_inv_def main_ok_def)
  show ?thesis
  proof (cases ps)
    case Nil
    let ?s' = "s\<lparr>main_pc := Waiting (listenProtocols (world s))\<rparr>"
    have ms: "main_step s = ?s'" using Spawning Nil by (simp add: main_step_def)
    from b have none: "filter (\<lambda>l. pc l = Done) (listeners s) = []"
      by (simp add: filter_empty_conv)
    from a Nil have names: "map net (listeners s) = listenProtocols (world s)" by simp
    then have "length (listenProtocols (world s)) = length (map net (listeners s))" by simp
    then have len: "length (listenProtocols (world s)) = length (listeners s)" by simp
    have "main_ok ?s'" by (simp add: main_ok_def names none len)
    moreover have "proc_ok ?s'" using alive by (simp add: proc_ok_def)
    ultimately show ?thesis using c unfolding ms by (simp add: serving_inv_def)
  next
    case (Cons p rest)
    let ?l = "go_serve p (listenAddress (world s))"
    let ?s' = "s\<lparr>listeners := listeners s @ [?l], main_pc := Spawning rest\<rparr>"
    have ms: "main_step s = ?s'" using Spawning Cons by (simp add: main_step_def)
    have new: "net ?l = p" "pc ?l = AtNotify" "addr ?l = listenAddress (world s)"
      "listener_ok ?l"
      by (simp_all add: listener_ok_def go_serve_def)
    from a Cons have "map net (listeners s @ [?l]) @ rest = listenProtocols (world s)"
      by (simp add: new)
    moreover from b have "\<forall>l \<in> set (listeners s @ [?l]). pc l \<noteq> Done"
      by (simp add: new)
    ultimately have "main_ok ?s'" by (simp add: main_ok_def)
    moreover have "proc_ok ?s'" using alive by (simp add: proc_ok_def)
    moreover from c have "\<forall>l \<in> set (listeners ?s'). addr l = listenAddress (world ?s') \<and> listener_ok l"
      by (simp add: new)
    ultimately show ?thesis unfolding ms by (simp add: serving_inv_def)
  qed
next
  case (Waiting ps)
  with inv have a: "map net (listeners s) = listenProtocols (world s)"
    and b: "length ps + length (filter (\<lambda>l. pc l = Done) (listeners s)) = length (listeners s)"
    and c: "\<forall>l \<in> set (listeners s). addr l = listenAddress (world s) \<and> listener_ok l"
    by (simp_all add: serving_inv_def main_ok_def)
  show ?thesis
  proof (cases ps)
    case Nil
    let ?s' = "s\<lparr>main_pc := MainReturned, proc := Exit 0\<rparr>"
    have ms: "main_step s = ?s'" using Waiting Nil by (simp add: main_step_def)
    from Nil b have "length (filter (\<lambda>l. pc l = Done) (listeners s)) = length (listeners s)"
      by simp
    then have all: "\<forall>l \<in> set (listeners s). pc l = Done"
      by (blast dest: count_full)
    have "main_ok ?s'" using a all by (simp add: main_ok_def)
    moreover have "proc_ok ?s'" by (simp add: proc_ok_def)
    ultimately show ?thesis using c unfolding ms by (simp add: serving_inv_def)
  next
    case (Cons x rest)
    with Waiting have "main_step s = s" by (simp add: main_step_def)
    with inv show ?thesis by simp
  qed
next
  case MainReturned
  then have "main_step s = s" by (simp add: main_step_def)
  with inv show ?thesis by simp
qed

lemma serving_inv_send_servers:
  assumes inv: "serving_inv s" and alive: "proc s = Alive"
    and w: "main_pc s = Waiting (x # rest)"
    and i: "i < length (listeners s)" and at: "pc (listeners s ! i) = AtSend"
  shows "serving_inv (s\<lparr>listeners := (listeners s)[i := (listeners s ! i)\<lparr>pc := Done\<rparr>],
                        main_pc := Waiting rest\<rparr>)"
proof -
  let ?l = "listeners s ! i"
  from i have mem: "?l \<in> set (listeners s)" by simp
  from inv w have a: "map net (listeners s) = listenProtocols (world s)"
    and b: "Suc (length rest) + length (filter (\<lambda>l. pc l = Done) (listeners s)) = length (listeners s)"
    and c: "\<forall>l \<in> set (listeners s). addr l = listenAddress (world s) \<and> listener_ok l"
    by (simp_all add: serving_inv_def main_ok_def)
  have names: "map net ((listeners s)[i := ?l\<lparr>pc := Done\<rparr>]) = map net (listeners s)"
    using i by (simp add: map_update_same)
  have cnt: "length (filter (\<lambda>l. pc l = Done) ((listeners s)[i := ?l\<lparr>pc := Done\<rparr>])) =
             Suc (length (filter (\<lambda>l. pc l = Done) (listeners s)))"
    using i at by (simp add: count_update_new)
  from c mem at have "addr (?l\<lparr>pc := Done\<rparr>) = listenAddress (world s) \<and> listener_ok (?l\<lparr>pc := Done\<rparr>)"
    by (auto simp: listener_ok_def)
  with c have "\<forall>l \<in> set ((listeners s)[i := ?l\<lparr>pc := Done\<rparr>]).
                 addr l = listenAddress (world s) \<and> listener_ok l"
    by (rule all_update)
  with a b names cnt alive show ?thesis
    by (simp add: serving_inv_def main_ok_def proc_ok_def)
qed

lemma count_map_same:
  "(\<And>x. P (f x) = P x) \<Longrightarrow> length (filter P (map f xs)) = length (filter P xs)"
  by (induction xs) simp_all

lemma net_deliver: "net \<circ> deliver sg = net"
  by (rule ext) (simp add: deliver_frame)

lemma serving_inv_signal:
  assumes inv: "serving_inv s" and alive: "proc s = Alive"
  shows "serving_inv (if \<forall>l \<in> set (listeners s). pc l = AtNotify then s\<lparr>proc := Killed sg\<rparr>
                      else s\<lparr>listeners := map (deliver sg) (listeners s)\<rparr>)"
proof (cases "\<forall>l \<in> set (listeners s). pc l = AtNotify")
  case True
  from inv alive have "main_pc s \<noteq> MainReturned" by (simp add: serving_inv_def proc_ok_def)
  with True have "proc_ok (s\<lparr>proc := Killed sg\<rparr>)" by (simp add: proc_ok_def)
  moreover from inv have "main_ok (s\<lparr>proc := Killed sg\<rparr>)"
    by (simp add: serving_inv_def main_ok_def split: main_pc.splits)
  ultimately show ?thesis using inv True by (simp add: serving_inv_def)
next
  case False
  let ?s' = "s\<lparr>listeners := map (deliver sg) (listeners s)\<rparr>"
  have cnt: "length (filter (\<lambda>l. pc l = Done) (map (deliver sg) (listeners s))) =
             length (filter (\<lambda>l. pc l = Done) (listeners s))"
    by (rule count_map_same) (simp add: deliver_frame)
  have "main_ok ?s'"
  proof (cases "main_pc s")
    case Startup
    with inv show ?thesis by (simp add: serving_inv_def main_ok_def)
  next
    case (Spawning ps)
    with inv show ?thesis
      by (simp add: serving_inv_def main_ok_def deliver_frame net_deliver)
  next
    case (Waiting ps)
    with inv cnt show ?thesis
      by (simp add: serving_inv_def main_ok_def net_deliver)
  next
    case MainReturned
    with inv alive show ?thesis by (simp add: serving_inv_def proc_ok_def)
  qed
  moreover have "proc_ok ?s'"
    using inv alive by (simp add: serving_inv_def proc_ok_def)
  moreover have "\<forall>l \<in> set (listeners ?s'). addr l = listenAddress (world ?s') \<and> listener_ok l"
    using inv by (simp add: serving_inv_def deliver_frame listener_ok_deliver)
  ultimately have "serving_inv ?s'" by (simp add: serving_inv_def)
  then show ?thesis unfolding if_not_P [OF False] .
qed

lemma serving_inv_step:
  assumes inv: "serving_inv s"
  shows "serving_inv (step e s)"
proof (cases "proc s = Alive")
  case False
  with inv show ?thesis by (simp add: step_not_Alive)
next
  case alive: True
  have ok: "listener_ok (listeners s ! i)" if "i < length (listeners s)" for i
    using inv that by (simp add: serving_inv_def)
  show ?thesis
  proof (cases e)
    case MainStep
    with serving_inv_main_step [OF inv alive] alive show ?thesis by (simp add: step_def)
  next
    case (ServeStep i)
    show ?thesis
    proof (cases "i < length (listeners s)")
      case True
      from serving_inv_local [OF inv alive True, of "serve_step (listeners s ! i)"] ok [OF True]
      have "serving_inv (s\<lparr>listeners := (listeners s)[i := serve_step (listeners s ! i)]\<rparr>)"
        by (simp add: serve_step_frame listener_ok_serve_step)
      with ServeStep alive True show ?thesis by (simp add: step_def)
    next
      case False
      with ServeStep alive inv show ?thesis by (simp add: step_def)
    qed
  next
    case (ListenAndServeReturns i failed)
    show ?thesis
    proof (cases "i < length (listeners s)")
      case True
      from serving_inv_local [OF inv alive True, of "listen_returns failed (listeners s ! i)"]
        ok [OF True]
      have "serving_inv
              (s\<lparr>listeners := (listeners s)[i := listen_returns failed (listeners s ! i)]\<rparr>)"
        by (simp add: listen_returns_frame listener_ok_listen_returns)
      with ListenAndServeReturns alive True show ?thesis by (simp add: step_def)
    next
      case False
      with ListenAndServeReturns alive inv show ?thesis by (simp add: step_def)
    qed
  next
    case (SendSIGTERM i)
    show ?thesis
    proof (cases "i < length (listeners s)")
      case True
      from serving_inv_local [OF inv alive True, of "send_sigterm (listeners s ! i)"] ok [OF True]
      have "serving_inv (s\<lparr>listeners := (listeners s)[i := send_sigterm (listeners s ! i)]\<rparr>)"
        by (simp add: send_sigterm_frame listener_ok_send_sigterm)
      with SendSIGTERM alive True show ?thesis by (simp add: step_def)
    next
      case False
      with SendSIGTERM alive inv show ?thesis by (simp add: step_def)
    qed
  next
    case (SendServers i)
    show ?thesis
    proof (cases "\<exists>x rest. main_pc s = Waiting (x # rest) \<and> i < length (listeners s) \<and>
                    pc (listeners s ! i) = AtSend")
      case True
      then obtain x rest where w: "main_pc s = Waiting (x # rest)"
        and i: "i < length (listeners s)" and at: "pc (listeners s ! i) = AtSend"
        by blast
      from serving_inv_send_servers [OF inv alive w i at] SendServers alive w i at
      show ?thesis by (simp add: step_def)
    next
      case False
      then have "step e s = s"
        using SendServers alive by (auto simp: step_def split: main_pc.splits list.splits)
      with inv show ?thesis by simp
    qed
  next
    case (Signal sg)
    with alive serving_inv_signal [OF inv alive, of sg] show ?thesis by (simp add: step_def)
  qed
qed

lemma serving_inv_run: "serving_inv s \<Longrightarrow> serving_inv (run es s)"
  by (induction es arbitrary: s) (simp_all add: serving_inv_step)

lemma serving_inv_reachable: "serving_inv (run es (serving w))"
  by (rule serving_inv_run) (rule serving_inv_serving)

lemma proc_main_cases:
  "proc (main env c schedule) = Alive \<or> proc (main env c schedule) = Exit 0 \<or>
   (\<exists>sg. proc (main env c schedule) = Killed sg) \<or>
   (proc (main env c schedule) = Exit 1 \<and> main_pc (main env c schedule) = Startup)"
proof (cases "startup env c")
  case (Exited n w)
  from startup_Exited [OF Exited] have "n = 0 \<or> n = 1" by blast
  with Exited show ?thesis by (auto simp: main_def)
next
  case (Running w)
  have "proc_ok (run schedule (serving w))"
    using serving_inv_reachable [of schedule w] by (simp add: serving_inv_def)
  with Running show ?thesis
    by (cases "proc (run schedule (serving w))") (auto simp: main_def proc_ok_def)
qed

lemma main_startup_Exited:
  "startup env c = Exited n w \<Longrightarrow>
     main env c schedule = \<lparr>world = w, main_pc = Startup, listeners = [], proc = Exit n\<rparr>"
  by (simp add: main_def)

lemma main_startup_Running:
  "startup env c = Running w \<Longrightarrow> main env c schedule = run schedule (serving w)"
  by (simp add: main_def)

section \<open>Further facts about start-up and the listeners\<close>

lemma reachable_proc_ok: "proc_ok (run es (serving w))"
  using serving_inv_reachable [of es w] by (simp add: serving_inv_def)

lemma reachable_main_ok: "main_ok (run es (serving w))"
  using serving_inv_reachable [of es w] by (simp add: serving_inv_def)

lemma reachable_listener_ok:
  "l \<in> set (listeners (run es (serving w))) \<Longrightarrow> listener_ok l \<and> addr l = listenAddress w"
  using serving_inv_reachable [of es w] by (simp add: serving_inv_def world_run serving_def)

lemma startup_world:
  assumes "flag_tcp c \<or> flag_udp c"
  shows "\<exists>w0. Action env c initial = Running w0 \<and>
           gdnsOPT (world (main env c schedule)) = gdnsOPT w0 \<and>
           set (effects w0) \<subseteq> set (effects (world (main env c schedule))) \<and>
           CallNewGDNSProvider (gdnsEndPT w0) (gdnsOPT w0)
             \<in> set (effects (world (main env c schedule))) \<and>
           (proc (main env c schedule) = Exit 1 \<longleftrightarrow>
              (\<exists>err. NewGDNSProvider env (gdnsEndPT w0) (gdnsOPT w0) = Inl err))"
proof -
  from Action_some_protocol [OF assms, of env] obtain w0
    where a: "Action env c initial = Running w0" by blast
  show ?thesis
  proof (cases "NewGDNSProvider env (gdnsEndPT w0) (gdnsOPT w0)")
    case (Inl err)
    with a have "startup env c =
        Exited 1 (emit (Exitln err) (emit (CallNewGDNSProvider (gdnsEndPT w0) (gdnsOPT w0)) w0))"
      by (simp add: startup_def)
    from main_startup_Exited [OF this, of schedule] a Inl show ?thesis
      by (auto simp: emit_def)
  next
    case (Inr provider)
    with a have st: "startup env c =
        Running (emit (HandleFunc ''.'' provider)
                   (emit (CallNewGDNSProvider (gdnsEndPT w0) (gdnsOPT w0)) w0))"
      by (simp add: startup_def)
    have "proc_ok (main env c schedule)"
      unfolding main_startup_Running [OF st] by (rule reachable_proc_ok)
    then have "proc (main env c schedule) \<noteq> Exit 1"
      by (auto simp: proc_ok_def)
    with a Inr st show ?thesis
      by (auto simp: world_main emit_def)
  qed
qed

lemma Action_effects_no_handler:
  assumes "Action env c initial = Running w0"
  shows "HandleFunc pattern provider \<notin> set (effects w0)"
  unfolding Action_Running(6) [OF assms]
  by (auto simp: List.map_filter_def split: sum.splits)

lemma handler_in_main_effects:
  assumes "HandleFunc pattern provider \<in> set (effects (world (main env c schedule)))"
  shows "\<exists>w. startup env c = Running w \<and>
           listenProtocols w =
             (if flag_tcp c then [''tcp''] else []) @ (if flag_udp c then [''udp''] else []) \<and>
           listenAddress w = flag_listen c"
proof (cases "startup env c")
  case (Exited n w)
  with assms have mem: "HandleFunc pattern provider \<in> set (effects w)"
    by (simp add: world_main)
  from startup_Exited [OF Exited] show ?thesis
  proof
    assume "\<not> flag_tcp c \<and> \<not> flag_udp c \<and> n = 0 \<and> effects w = [ShowAppHelp]"
    with mem show ?thesis by simp
  next
    assume "\<exists>w0 err. Action env c initial = Running w0 \<and>
            NewGDNSProvider env (gdnsEndPT w0) (gdnsOPT w0) = Inl err \<and> n = 1 \<and>
            w = emit (Exitln err) (emit (CallNewGDNSProvider (gdnsEndPT w0) (gdnsOPT w0)) w0)"
    then obtain w0 err where a: "Action env c initial = Running w0"
      and w: "w = emit (Exitln err) (emit (CallNewGDNSProvider (gdnsEndPT w0) (gdnsOPT w0)) w0)"
      by blast
    from mem w Action_effects_no_handler [OF a, of pattern provider] show ?thesis
      by (simp add: emit_def)
  qed
next
  case (Running w)
  from startup_Running [OF Running] obtain w0 p
    where a: "Action env c initial = Running w0"
      and w: "w = emit (HandleFunc ''.'' p)
                  (emit (CallNewGDNSProvider (gdnsEndPT w0) (gdnsOPT w0)) w0)"
    by blast
  from Action_Running(4,5) [OF a] w Running show ?thesis by (simp add: emit_def)
qed

lemma started_prefix:
  assumes "main_ok s" and "\<forall>l \<in> set (listeners s). addr l = a"
  shows "map (\<lambda>l. (net l, addr l)) (listeners s) =
           take (length (listeners s)) (map (\<lambda>p. (p, a)) (listenProtocols (world s)))"
    and "(\<forall>ps. main_pc s \<noteq> Spawning ps) \<Longrightarrow>
           map (\<lambda>l. (net l, addr l)) (listeners s) = map (\<lambda>p. (p, a)) (listenProtocols (world s))"
proof -
  from assms(2) have pairs: "map (\<lambda>l. (net l, addr l)) (listeners s) =
      map (\<lambda>p. (p, a)) (map net (listeners s))"
    by (simp add: comp_def)
  from assms(1) obtain ps where ps: "map net (listeners s) @ ps = listenProtocols (world s)"
    by (cases "main_pc s") (auto simp: main_ok_def)
  then have "take (length (listeners s)) (listenProtocols (world s)) = map net (listeners s)"
    by (metis append_eq_conv_conj length_map)
  with pairs show "map (\<lambda>l. (net l, addr l)) (listeners s) =
           take (length (listeners s)) (map (\<lambda>p. (p, a)) (listenProtocols (world s)))"
    by (simp add: take_map)
  assume "\<forall>ps. main_pc s \<noteq> Spawning ps"
  with assms(1) have "map net (listeners s) = listenProtocols (world s)"
    by (cases "main_pc s") (auto simp: main_ok_def)
  with pairs show "map (\<lambda>l. (net l, addr l)) (listeners s) =
      map (\<lambda>p. (p, a)) (listenProtocols (world s))"
    by simp
qed

lemma constructor_error_exits:
  assumes "CallNewGDNSProvider endpoint opts \<in> set (effects (world (main env c schedule)))"
    and "NewGDNSProvider env endpoint opts = Inl err"
  shows "proc (main env c schedule) = Exit 1"
    and "main_pc (main env c schedule) = Startup"
    and "listeners (main env c schedule) = []"
    and "last (effects (world (main env c schedule))) = Exitln err"
    and "HandleFunc pattern provider \<notin> set (effects (world (main env c schedule)))"
proof -
  from call_in_main_effects [OF assms(1)] obtain w0
    where w0: "Action env c initial = Running w0" "endpoint = gdnsEndPT w0" "opts = gdnsOPT w0"
    by blast
  with assms(2) have "startup env c =
      Exited 1 (emit (Exitln err) (emit (CallNewGDNSProvider (gdnsEndPT w0) (gdnsOPT w0)) w0))"
    by (simp add: startup_def)
  note m = main_startup_Exited [OF this, of schedule]
  from m show "proc (main env c schedule) = Exit 1" "main_pc (main env c schedule) = Startup"
    "listeners (main env c schedule) = []"
    "last (effects (world (main env c schedule))) = Exitln err"
    by (simp_all add: emit_def)
  from m Action_effects_no_handler [OF w0(1), of pattern provider]
  show "HandleFunc pattern provider \<notin> set (effects (world (main env c schedule)))"
    by (simp add: emit_def)
qed

lemma no_handler_no_listener:
  assumes "\<forall>pattern provider. HandleFunc pattern provider \<notin> set (effects (world (main env c schedule)))"
  shows "listeners (main env c schedule) = []" and "main_pc (main env c schedule) = Startup"
proof -
  have "\<exists>n w. startup env c = Exited n w"
  proof (cases "startup env c")
    case (Exited n w)
    then show ?thesis by blast
  next
    case (Running w)
    from startup_Running [OF Running] obtain w0 p
      where "w = emit (HandleFunc ''.'' p)
                  (emit (CallNewGDNSProvider (gdnsEndPT w0) (gdnsOPT w0)) w0)"
      by blast
    with Running have "HandleFunc ''.'' p \<in> set (effects (world (main env c schedule)))"
      by (simp add: world_main emit_def)
    with assms show ?thesis by blast
  qed
  then obtain n w where "startup env c = Exited n w" by blast
  from main_startup_Exited [OF this, of schedule]
  show "listeners (main env c schedule) = []" and "main_pc (main env c schedule) = Startup"
    by simp_all
qed

lemma startup_iff_constructor_error:
  assumes "Action env c initial = Running w0"
  shows "main_pc (main env c schedule) = Startup \<longleftrightarrow>
           (\<exists>err. NewGDNSProvider env (gdnsEndPT w0) (gdnsOPT w0) = Inl err)"
proof (cases "NewGDNSProvider env (gdnsEndPT w0) (gdnsOPT w0)")
  case (Inl err)
  with assms have "startup env c =
      Exited 1 (emit (Exitln err) (emit (CallNewGDNSProvider (gdnsEndPT w0) (gdnsOPT w0)) w0))"
    by (simp add: startup_def)
  from main_startup_Exited [OF this, of schedule] Inl show ?thesis by simp
next
  case (Inr provider)
  with assms have st: "startup env c =
      Running (emit (HandleFunc ''.'' provider)
                 (emit (CallNewGDNSProvider (gdnsEndPT w0) (gdnsOPT w0)) w0))"
    by (simp add: startup_def)
  have "main_ok (main env c schedule)"
    unfolding main_startup_Running [OF st] by (rule reachable_main_ok)
  then have "main_pc (main env c schedule) \<noteq> Startup"
    by (auto simp: main_ok_def)
  with Inr show ?thesis by simp
qed

lemma main_is_run: "main env c (schedule @ es) = run es (main env c schedule)"
proof (cases "startup env c")
  case (Exited n w)
  have "run es s = s" if "proc s \<noteq> Alive" for s :: "('a, 'b, 'c, 'd) Process"
    using that by (induction es arbitrary: s) (simp_all add: step_not_Alive)
  with Exited show ?thesis by (simp add: main_def)
next
  case (Running w)
  then show ?thesis by (simp add: main_def run_append)
qed

lemma main_inv:
  assumes "listeners (main env c schedule) \<noteq> []"
  shows "serving_inv (main env c schedule)"
proof (cases "startup env c")
  case (Exited n w)
  with assms show ?thesis by (simp add: main_def)
next
  case (Running w)
  show ?thesis unfolding main_startup_Running [OF Running] by (rule serving_inv_reachable)
qed

lemma last_listener_failure_steps:
  assumes alive: "proc s = Alive" and w: "main_pc s = Waiting [p]"
    and i: "i < length (listeners s)"
    and r: "pc (listeners s ! i) = AtReceive" and l: "inner (listeners s ! i) = InListenAndServe"
  shows "received (listeners (run [ListenAndServeReturns i True, SendSIGTERM i, ServeStep i] s) ! i)
           = Some SIGTERM"
    and "shutdown_called
           (listeners (run [ListenAndServeReturns i True, SendSIGTERM i, ServeStep i] s) ! i)"
    and "proc (run [ListenAndServeReturns i True, SendSIGTERM i, ServeStep i,
                    SendServers i, MainStep] s) = Exit 0"
    and "main_pc (run [ListenAndServeReturns i True, SendSIGTERM i, ServeStep i,
                    SendServers i, MainStep] s) = MainReturned"
  using assms
  by (simp_all add: step_def listen_returns_def send_sigterm_def serve_step_def main_step_def)

lemma receiving_is_alive:
  assumes "serving_inv s" and "i < length (listeners s)" and "pc (listeners s ! i) = AtReceive"
  shows "proc s = Alive"
proof (cases "proc s")
  case Alive
  then show ?thesis .
next
  case (Exit n)
  with assms(1) have "main_pc s = MainReturned" by (simp add: serving_inv_def proc_ok_def)
  with assms(1) have "\<forall>l \<in> set (listeners s). pc l = Done"
    by (simp add: serving_inv_def main_ok_def)
  with assms(2) have "pc (listeners s ! i) = Done" by simp
  with assms(3) show ?thesis by simp
next
  case (Killed sg)
  with assms(1) have "\<forall>l \<in> set (listeners s). pc l = AtNotify"
    by (simp add: serving_inv_def proc_ok_def)
  with assms(2) have "pc (listeners s ! i) = AtNotify" by simp
  with assms(3) show ?thesis by simp
qed

lemma serve_reaches_listen:
  assumes "proc s = Alive" and "i < length (listeners s)" and "pc (listeners s ! i) = AtNotify"
  shows "pc (listeners (run [ServeStep i, ServeStep i] s) ! i) = AtReceive"
    and "inner (listeners (run [ServeStep i, ServeStep i] s) ! i) = InListenAndServe"
    and "net (listeners (run [ServeStep i, ServeStep i] s) ! i) = net (listeners s ! i)"
    and "addr (listeners (run [ServeStep i, ServeStep i] s) ! i) = addr (listeners s ! i)"
  using assms by (simp_all add: step_def serve_step_def)

lemma listen_failure_steps:
  assumes alive: "proc s = Alive" and i: "i < length (listeners s)"
    and r: "pc (listeners s ! i) = AtReceive" and l: "inner (listeners s ! i) = InListenAndServe"
  shows "inner (listeners (run [ListenAndServeReturns i True] s) ! i) = AtSendSIGTERM"
    and "pc (listeners (run [ListenAndServeReturns i True] s) ! i) = AtReceive"
    and "received (listeners (run [ListenAndServeReturns i True, SendSIGTERM i] s) ! i)
           = Some SIGTERM"
    and "pc (listeners (run [ListenAndServeReturns i True, SendSIGTERM i] s) ! i) = AtShutdown"
    and "shutdown_called
           (listeners (run [ListenAndServeReturns i True, SendSIGTERM i, ServeStep i] s) ! i)"
    and "pc (listeners (run [ListenAndServeReturns i True, SendSIGTERM i, ServeStep i] s) ! i)
           = AtSend"
    and "j \<noteq> i \<Longrightarrow>
           listeners (run [ListenAndServeReturns i True, SendSIGTERM i, ServeStep i] s) ! j =
           listeners s ! j"
    and "proc (run [ListenAndServeReturns i True, SendSIGTERM i, ServeStep i] s) = Alive"
    and "main_pc (run [ListenAndServeReturns i True, SendSIGTERM i, ServeStep i] s) = main_pc s"
  using assms
  by (simp_all add: step_def listen_returns_def send_sigterm_def serve_step_def)

section \<open>The provider never writes the configuration\<close>

lemma world_engine_step: "world (process (engine_step e s)) = world (process s)"
  by (cases e)
     (simp_all add: engine_step_def serve_query_def world_step Let_def split: prod.splits)

lemma world_engine_run: "world (process (engine_run es s)) = world (process s)"
  by (induction es arbitrary: s) (simp_all add: world_engine_step)

lemma consumed_engine_step:
  assumes "\<forall>config \<in> set (consumed s). config = gdnsOPT (world (process s))"
  shows "\<forall>config \<in> set (consumed (engine_step e s)). config = gdnsOPT (world (process s))"
  using assms
  by (cases e) (auto simp: engine_step_def serve_query_def Let_def split: prod.splits)

lemma consumed_engine_run:
  assumes "\<forall>config \<in> set (consumed s). config = gdnsOPT (world (process s))"
  shows "\<forall>config \<in> set (consumed (engine_run es s)). config = gdnsOPT (world (process s))"
  using assms
proof (induction es arbitrary: s)
  case Nil
  then show ?case by simp
next
  case (Cons e es)
  from consumed_engine_step [OF Cons.prems, of e]
  have "\<forall>config \<in> set (consumed (engine_step e s)).
          config = gdnsOPT (world (process (engine_step e s)))"
    by (simp add: world_engine_step)
  from Cons.IH [OF this] show ?case by (simp add: world_engine_step)
qed

lemma engine_run_append: "engine_run (es @ es') s = engine_run es' (engine_run es s)"
  by (induction es arbitrary: s) simp_all

lemma world_engine: "world (process (engine env c schedule)) = world (main env c [])"
  by (simp add: engine_def world_engine_run)

section \<open>Claims about start-up\<close>

text \<open>
  C9. If neither the tcp flag nor the udp flag is given, the process shows the application
  help and exits with status 0: the help is its only effect, so no provider is constructed,
  and no listener is started, under every schedule.
\<close>

theorem no_protocol_shows_help_and_exits:
  assumes "\<not> flag_tcp c" and "\<not> flag_udp c"
  shows "proc (main env c schedule) = Exit 0 \<and>
         effects (world (main env c schedule)) = [ShowAppHelp] \<and>
         listeners (main env c schedule) = [] \<and>
         main_pc (main env c schedule) = Startup"
proof -
  from Action_no_protocol [OF assms, of env] obtain w
    where "Action env c initial = Exited 0 w" and "effects w = [ShowAppHelp]" by blast
  then show ?thesis by (simp add: main_def startup_def)
qed

theorem no_protocol_shows_help_and_exits_witness:
  "\<not> flag_tcp no_flags \<and> \<not> flag_udp no_flags \<and>
   proc (main example_env no_flags [MainStep, ServeStep 0]) = Exit 0 \<and>
   effects (world (main example_env no_flags [MainStep, ServeStep 0])) = [ShowAppHelp] \<and>
   listeners (main example_env no_flags [MainStep, ServeStep 0]) = []"
  using no_protocol_shows_help_and_exits [of no_flags example_env "[MainStep, ServeStep 0]"]
  by (simp add: no_flags_def)

text \<open>
  C6. The options handed to the provider constructor negate the two toggles: padding is on
  exactly when \<^verbatim>\<open>no-pad\<close> is absent, certificate validation is on exactly when \<^verbatim>\<open>insecure\<close>
  is absent; where the two toggles are as on a command line without flags, both are on.
\<close>

theorem provider_options_negate_toggles:
  assumes "CallNewGDNSProvider endpoint opts \<in> set (effects (world (main env c schedule)))"
  shows "Pad opts = (\<not> flag_no_pad c) \<and> Secure opts = (\<not> flag_insecure c) \<and>
         (flag_no_pad c = flag_no_pad no_flags \<and> flag_insecure c = flag_insecure no_flags
            \<longrightarrow> Pad opts \<and> Secure opts)"
proof -
  from call_in_main_effects [OF assms] obtain w0
    where "Action env c initial = Running w0" and "opts = gdnsOPT w0" by blast
  with Action_Running(2) [of env c w0] show ?thesis by (simp add: no_flags_def)
qed

theorem provider_options_negate_toggles_witness:
  "CallNewGDNSProvider ''https://dns.google.com/resolve''
     \<lparr>PROXY = [], EDNS = [], Pad = False, Secure = True, EndpointIPs = [], DNSServers = []\<rparr>
     \<in> set (effects (world (main example_env (no_flags\<lparr>flag_udp := True, flag_no_pad := True\<rparr>) [MainStep]))) \<and>
   Pad \<lparr>PROXY = [], EDNS = [], Pad = False, Secure = True, EndpointIPs = ([]::example_ip list),
        DNSServers = ([]::example_ep list)\<rparr> = (\<not> flag_no_pad (no_flags\<lparr>flag_udp := True, flag_no_pad := True\<rparr>))"
  using provider_options_negate_toggles [of "''https://dns.google.com/resolve''"
     "\<lparr>PROXY = [], EDNS = [], Pad = False, Secure = True, EndpointIPs = [], DNSServers = []\<rparr>"
     example_env "no_flags\<lparr>flag_udp := True, flag_no_pad := True\<rparr>" "[MainStep]"]
  by (simp add: no_flags_def world_main startup_def Action_def Let_def initial_def emit_def
      zero_GDNSOptions_def example_env_def example_NewGDNSProvider_def)

text \<open>
  C2, as stated, fails: the error of the provider constructor is not the only failure at
  start-up. With \<^verbatim>\<open>--tcp\<close> and the default endpoint the provider is constructed and its
  handler registered; then \<^verbatim>\<open>ListenAndServe\<close> of the only listener returns an error (the
  address is in use, say), the listener receives \<^verbatim>\<open>SIGTERM\<close> on its channel and returns,
  and main returns: the process has ended at start-up, with status 0, through a failure
  that is not the constructor's and belongs to no query.
\<close>

theorem listen_failure_ends_the_process_counterexample:
  "NewGDNSProvider example_env ''https://dns.google.com/resolve''
     \<lparr>PROXY = [], EDNS = [], Pad = True, Secure = True, EndpointIPs = [], DNSServers = []\<rparr>
     = Inr (''https://dns.google.com/resolve'',
        \<lparr>PROXY = [], EDNS = [], Pad = True, Secure = True, EndpointIPs = [], DNSServers = []\<rparr>) \<and>
   effects (world (main example_env (no_flags\<lparr>flag_tcp := True\<rparr>)
     [MainStep, MainStep, ServeStep 0, ServeStep 0, ListenAndServeReturns 0 True,
      SendSIGTERM 0, ServeStep 0, SendServers 0, MainStep])) =
     [LogEndpointIPs [], LogDNSServers [],
      CallNewGDNSProvider ''https://dns.google.com/resolve''
        \<lparr>PROXY = [], EDNS = [], Pad = True, Secure = True, EndpointIPs = [], DNSServers = []\<rparr>,
      HandleFunc ''.'' (''https://dns.google.com/resolve'',
        \<lparr>PROXY = [], EDNS = [], Pad = True, Secure = True, EndpointIPs = [], DNSServers = []\<rparr>)] \<and>
   map inner (listeners (main example_env (no_flags\<lparr>flag_tcp := True\<rparr>)
     [MainStep, MainStep, ServeStep 0, ServeStep 0, ListenAndServeReturns 0 True]))
     = [AtSendSIGTERM] \<and>
   map received (listeners (main example_env (no_flags\<lparr>flag_tcp := True\<rparr>)
     [MainStep, MainStep, ServeStep 0, ServeStep 0, ListenAndServeReturns 0 True,
      SendSIGTERM 0, ServeStep 0, SendServers 0, MainStep])) = [Some SIGTERM] \<and>
   map pc (listeners (main example_env (no_flags\<lparr>flag_tcp := True\<rparr>)
     [MainStep, MainStep, ServeStep 0, ServeStep 0, ListenAndServeReturns 0 True,
      SendSIGTERM 0, ServeStep 0, SendServers 0, MainStep])) = [Done] \<and>
   main_pc (main example_env (no_flags\<lparr>flag_tcp := True\<rparr>)
     [MainStep, MainStep, ServeStep 0, ServeStep 0, ListenAndServeReturns 0 True,
      SendSIGTERM 0, ServeStep 0, SendServers 0, MainStep]) = MainReturned \<and>
   proc (main example_env (no_flags\<lparr>flag_tcp := True\<rparr>)
     [MainStep, MainStep, ServeStep 0, ServeStep 0, ListenAndServeReturns 0 True,
      SendSIGTERM 0, ServeStep 0, SendServers 0, MainStep]) = Exit 0"
  by (simp add: no_flags_def main_def startup_def Action_def Let_def initial_def emit_def
      zero_GDNSOptions_def example_env_def example_NewGDNSProvider_def serving_def step_def
      main_step_def go_serve_def serve_step_def listen_returns_def send_sigterm_def)

text \<open>
  C2, amended. When the provider constructor returns an error, the process exits with status
  1 during start-up, with no listener started and the error as its last effect; and this is
  the only failing exit of the process: whenever the process has ended with a status other
  than 0, it has ended during start-up, with status 1, after a call of the constructor that
  returned an error. A second failure at start-up ends the process with status 0: when
  \<^verbatim>\<open>ListenAndServe\<close> of the last listener main waits for returns an error while its \<^verbatim>\<open>serve\<close>
  is blocked in line 43, then, although the constructor has returned no error, that listener
  receives \<^verbatim>\<open>SIGTERM\<close>, calls \<^verbatim>\<open>Shutdown\<close> and returns, and main returns.
\<close>

theorem provider_error_is_the_only_failing_exit:
  "(\<forall>endpoint opts err.
      CallNewGDNSProvider endpoint opts \<in> set (effects (world (main env c schedule))) \<and>
      NewGDNSProvider env endpoint opts = Inl err \<longrightarrow>
        proc (main env c schedule) = Exit 1 \<and> main_pc (main env c schedule) = Startup \<and>
        listeners (main env c schedule) = [] \<and>
        last (effects (world (main env c schedule))) = Exitln err) \<and>
   (\<forall>n. proc (main env c schedule) = Exit n \<and> n \<noteq> 0 \<longrightarrow>
      n = 1 \<and> main_pc (main env c schedule) = Startup \<and>
      (\<exists>endpoint opts err.
         CallNewGDNSProvider endpoint opts \<in> set (effects (world (main env c schedule))) \<and>
         NewGDNSProvider env endpoint opts = Inl err)) \<and>
   (\<forall>i p. main_pc (main env c schedule) = Waiting [p] \<and>
      i < length (listeners (main env c schedule)) \<and>
      pc (listeners (main env c schedule) ! i) = AtReceive \<and>
      inner (listeners (main env c schedule) ! i) = InListenAndServe \<longrightarrow>
        (\<forall>endpoint opts err.
           CallNewGDNSProvider endpoint opts \<in> set (effects (world (main env c schedule))) \<longrightarrow>
           NewGDNSProvider env endpoint opts \<noteq> Inl err) \<and>
        received (listeners (main env c
          (schedule @ [ListenAndServeReturns i True, SendSIGTERM i, ServeStep i])) ! i)
          = Some SIGTERM \<and>
        shutdown_called (listeners (main env c
          (schedule @ [ListenAndServeReturns i True, SendSIGTERM i, ServeStep i])) ! i) \<and>
        main_pc (main env c
          (schedule @ [ListenAndServeReturns i True, SendSIGTERM i, ServeStep i,
                       SendServers i, MainStep])) = MainReturned \<and>
        proc (main env c
          (schedule @ [ListenAndServeReturns i True, SendSIGTERM i, ServeStep i,
                       SendServers i, MainStep])) = Exit 0)"
proof (intro conjI allI impI)
  fix endpoint opts err
  assume a: "CallNewGDNSProvider endpoint opts \<in> set (effects (world (main env c schedule))) \<and>
      NewGDNSProvider env endpoint opts = Inl err"
  then have call: "CallNewGDNSProvider endpoint opts \<in> set (effects (world (main env c schedule)))"
    and err: "NewGDNSProvider env endpoint opts = Inl err" by simp_all
  from constructor_error_exits(1-4) [OF call err]
  show "proc (main env c schedule) = Exit 1" "main_pc (main env c schedule) = Startup"
    "listeners (main env c schedule) = []"
    "last (effects (world (main env c schedule))) = Exitln err"
    by simp_all
next
  fix n
  assume a: "proc (main env c schedule) = Exit n \<and> n \<noteq> 0"
  with proc_main_cases [of env c schedule]
  show "n = 1" "main_pc (main env c schedule) = Startup" by auto
  show "\<exists>endpoint opts err.
         CallNewGDNSProvider endpoint opts \<in> set (effects (world (main env c schedule))) \<and>
         NewGDNSProvider env endpoint opts = Inl err"
  proof (cases "startup env c")
    case (Exited m w)
    with a have "m \<noteq> 0" by (simp add: main_def)
    with startup_Exited [OF Exited] obtain w0 err
      where "NewGDNSProvider env (gdnsEndPT w0) (gdnsOPT w0) = Inl err"
        and "w = emit (Exitln err) (emit (CallNewGDNSProvider (gdnsEndPT w0) (gdnsOPT w0)) w0)"
      by blast
    with Exited show ?thesis
      by (intro exI [of _ "gdnsEndPT w0"] exI [of _ "gdnsOPT w0"] exI [of _ err])
         (simp add: main_def emit_def)
  next
    case (Running w)
    have "proc_ok (run schedule (serving w))" by (rule reachable_proc_ok)
    with Running a show ?thesis by (simp add: main_def proc_ok_def)
  qed
next
  fix i p
  assume h: "main_pc (main env c schedule) = Waiting [p] \<and>
      i < length (listeners (main env c schedule)) \<and>
      pc (listeners (main env c schedule) ! i) = AtReceive \<and>
      inner (listeners (main env c schedule) ! i) = InListenAndServe"
  let ?s = "main env c schedule"
  from h have w: "main_pc ?s = Waiting [p]" and i: "i < length (listeners ?s)"
    and r: "pc (listeners ?s ! i) = AtReceive"
    and l: "inner (listeners ?s ! i) = InListenAndServe"
    by simp_all
  from i have ne: "listeners ?s \<noteq> []" by auto
  have alive: "proc ?s = Alive"
    by (rule receiving_is_alive [OF main_inv [OF ne] i r])
  note st = last_listener_failure_steps [OF alive w i r l]
  from st(1) show "received (listeners (main env c
          (schedule @ [ListenAndServeReturns i True, SendSIGTERM i, ServeStep i])) ! i)
          = Some SIGTERM"
    by (simp only: main_is_run)
  from st(2) show "shutdown_called (listeners (main env c
          (schedule @ [ListenAndServeReturns i True, SendSIGTERM i, ServeStep i])) ! i)"
    by (simp only: main_is_run)
  from st(4) show "main_pc (main env c
          (schedule @ [ListenAndServeReturns i True, SendSIGTERM i, ServeStep i,
                       SendServers i, MainStep])) = MainReturned"
    by (simp only: main_is_run)
  from st(3) show "proc (main env c
          (schedule @ [ListenAndServeReturns i True, SendSIGTERM i, ServeStep i,
                       SendServers i, MainStep])) = Exit 0"
    by (simp only: main_is_run)
  fix endpoint opts err
  assume call: "CallNewGDNSProvider endpoint opts \<in> set (effects (world ?s))"
  show "NewGDNSProvider env endpoint opts \<noteq> Inl err"
  proof
    assume "NewGDNSProvider env endpoint opts = Inl err"
    from constructor_error_exits(3) [OF call this] ne show False by simp
  qed
qed

theorem provider_error_is_the_only_failing_exit_witness:
  "CallNewGDNSProvider '':''
     \<lparr>PROXY = [], EDNS = [], Pad = True, Secure = True, EndpointIPs = [], DNSServers = []\<rparr>
     \<in> set (effects (world (main example_env (no_flags\<lparr>flag_tcp := True, flag_endpoint := '':''\<rparr>)
                              [MainStep, MainStep]))) \<and>
   NewGDNSProvider example_env '':''
     \<lparr>PROXY = [], EDNS = [], Pad = True, Secure = True, EndpointIPs = [], DNSServers = []\<rparr>
     = Inl ''missing protocol scheme'' \<and>
   proc (main example_env (no_flags\<lparr>flag_tcp := True, flag_endpoint := '':''\<rparr>)
           [MainStep, MainStep]) = Exit 1 \<and>
   listeners (main example_env (no_flags\<lparr>flag_tcp := True, flag_endpoint := '':''\<rparr>)
           [MainStep, MainStep]) = [] \<and>
   main_pc (main example_env (no_flags\<lparr>flag_tcp := True\<rparr>)
           [MainStep, MainStep, ServeStep 0, ServeStep 0]) = Waiting [''tcp''] \<and>
   0 < length (listeners (main example_env (no_flags\<lparr>flag_tcp := True\<rparr>)
           [MainStep, MainStep, ServeStep 0, ServeStep 0])) \<and>
   pc (listeners (main example_env (no_flags\<lparr>flag_tcp := True\<rparr>)
           [MainStep, MainStep, ServeStep 0, ServeStep 0]) ! 0) = AtReceive \<and>
   inner (listeners (main example_env (no_flags\<lparr>flag_tcp := True\<rparr>)
           [MainStep, MainStep, ServeStep 0, ServeStep 0]) ! 0) = InListenAndServe \<and>
   proc (main example_env (no_flags\<lparr>flag_tcp := True\<rparr>)
           ([MainStep, MainStep, ServeStep 0, ServeStep 0] @
            [ListenAndServeReturns 0 True, SendSIGTERM 0, ServeStep 0, SendServers 0, MainStep]))
     = Exit 0"
proof -
  let ?c = "no_flags\<lparr>flag_tcp := True, flag_endpoint := '':''\<rparr>"
  let ?d = "no_flags\<lparr>flag_tcp := True\<rparr>"
  let ?A = "[MainStep, MainStep, ServeStep 0, ServeStep 0]"
  let ?o = "\<lparr>PROXY = [], EDNS = [], Pad = True, Secure = True, EndpointIPs = [],
             DNSServers = []\<rparr> :: (example_ip, example_ep) GDNSOptions"
  note ev = no_flags_def main_def startup_def Action_def Let_def initial_def emit_def
      zero_GDNSOptions_def example_env_def example_NewGDNSProvider_def serving_def step_def
      main_step_def go_serve_def serve_step_def
  have call: "CallNewGDNSProvider '':'' ?o
      \<in> set (effects (world (main example_env ?c [MainStep, MainStep])))"
    by (simp add: ev)
  have err: "NewGDNSProvider example_env '':'' ?o = Inl ''missing protocol scheme''"
    by (simp add: example_env_def example_NewGDNSProvider_def)
  have h: "main_pc (main example_env ?d ?A) = Waiting [''tcp'']"
    "0 < length (listeners (main example_env ?d ?A))"
    "pc (listeners (main example_env ?d ?A) ! 0) = AtReceive"
    "inner (listeners (main example_env ?d ?A) ! 0) = InListenAndServe"
    by (simp_all add: ev)
  from provider_error_is_the_only_failing_exit [of example_env ?c "[MainStep, MainStep]"] call err
  have a: "proc (main example_env ?c [MainStep, MainStep]) = Exit 1"
    "listeners (main example_env ?c [MainStep, MainStep]) = []"
    by blast+
  from provider_error_is_the_only_failing_exit [of example_env ?d ?A] h
  have b: "proc (main example_env ?d
      (?A @ [ListenAndServeReturns 0 True, SendSIGTERM 0, ServeStep 0, SendServers 0, MainStep]))
      = Exit 0"
    by blast
  from call err a h b show ?thesis by blast
qed

section \<open>Claims about the configured addresses and the listeners\<close>

text \<open>
  C1, as stated, fails: with \<^verbatim>\<open>--tcp --endpoint-ips bogus --dns-servers bogus\<close> both strings
  fail to parse, and the process is alive after start-up with its tcp listener blocked in
  line 43.
\<close>

theorem unparsable_address_is_fatal_counterexample:
  "ParseIP example_env ''bogus'' = None \<and>
   ParseEndpoint example_env ''bogus'' 53 = Inl ''unable to parse endpoint'' \<and>
   proc (main example_env
           (no_flags\<lparr>flag_tcp := True, flag_endpoint_ips := [''bogus''],
                     flag_dns_servers := [''bogus'']\<rparr>)
           [MainStep, MainStep, ServeStep 0, ServeStep 0]) = Alive \<and>
   map net (listeners (main example_env
           (no_flags\<lparr>flag_tcp := True, flag_endpoint_ips := [''bogus''],
                     flag_dns_servers := [''bogus'']\<rparr>)
           [MainStep, MainStep, ServeStep 0, ServeStep 0])) = [''tcp''] \<and>
   map pc (listeners (main example_env
           (no_flags\<lparr>flag_tcp := True, flag_endpoint_ips := [''bogus''],
                     flag_dns_servers := [''bogus'']\<rparr>)
           [MainStep, MainStep, ServeStep 0, ServeStep 0])) = [AtReceive]"
  by (simp add: no_flags_def main_def startup_def Action_def Let_def initial_def emit_def
      zero_GDNSOptions_def example_env_def example_NewGDNSProvider_def example_ParseIP_def
      example_ParseEndpoint_def serving_def step_def main_step_def go_serve_def serve_step_def)

text \<open>
  C1, amended. With a protocol flag given, whatever the address strings are: the options of
  the provider hold the addresses that parse, in their order; each string that does not
  parse has its error logged; the constructor is called with these options; and the process
  ends during start-up, with status 1, exactly when the constructor returns an error. With
  no protocol flag the process has shown the help and exited with status 0 before any
  address string is parsed, whatever the strings are.
\<close>

theorem unparsable_addresses_are_logged_and_skipped:
  "(flag_tcp c \<or> flag_udp c \<longrightarrow>
      EndpointIPs (gdnsOPT (world (main env c schedule))) =
        List.map_filter (ParseIP env) (flag_endpoint_ips c) \<and>
      DNSServers (gdnsOPT (world (main env c schedule))) =
        List.map_filter (\<lambda>s. case ParseEndpoint env s 53 of Inl err \<Rightarrow> None | Inr d \<Rightarrow> Some d)
          (flag_dns_servers c) \<and>
      (\<forall>s \<in> set (flag_endpoint_ips c). ParseIP env s = None \<longrightarrow>
         LogUnparsableIP s \<in> set (effects (world (main env c schedule)))) \<and>
      (\<forall>s \<in> set (flag_dns_servers c). \<forall>err. ParseEndpoint env s 53 = Inl err \<longrightarrow>
         LogError err \<in> set (effects (world (main env c schedule)))) \<and>
      CallNewGDNSProvider (flag_endpoint c) (gdnsOPT (world (main env c schedule)))
        \<in> set (effects (world (main env c schedule))) \<and>
      (proc (main env c schedule) = Exit 1 \<longleftrightarrow>
         (\<exists>err. NewGDNSProvider env (flag_endpoint c)
                   (gdnsOPT (world (main env c schedule))) = Inl err)) \<and>
      (main_pc (main env c schedule) = Startup \<longleftrightarrow>
         (\<exists>err. NewGDNSProvider env (flag_endpoint c)
                   (gdnsOPT (world (main env c schedule))) = Inl err))) \<and>
   (\<not> flag_tcp c \<and> \<not> flag_udp c \<longrightarrow>
      proc (main env c schedule) = Exit 0 \<and>
      main_pc (main env c schedule) = Startup \<and>
      effects (world (main env c schedule)) = [ShowAppHelp] \<and>
      gdnsOPT (world (main env c schedule)) = zero_GDNSOptions)"
proof (intro conjI impI)
  assume flags: "\<not> flag_tcp c \<and> \<not> flag_udp c"
  then have "Action env c initial =
      Exited 0 (emit ShowAppHelp
        (initial\<lparr>listenAddress := flag_listen c, gdnsEndPT := flag_endpoint c\<rparr>))"
    by (simp add: Action_def Let_def initial_def)
  then have "startup env c =
      Exited 0 (emit ShowAppHelp
        (initial\<lparr>listenAddress := flag_listen c, gdnsEndPT := flag_endpoint c\<rparr>))"
    by (simp add: startup_def)
  from main_startup_Exited [OF this, of schedule]
  show "proc (main env c schedule) = Exit 0" "main_pc (main env c schedule) = Startup"
    "effects (world (main env c schedule)) = [ShowAppHelp]"
    "gdnsOPT (world (main env c schedule)) = zero_GDNSOptions"
    by (simp_all add: emit_def initial_def)
next
  assume flags: "flag_tcp c \<or> flag_udp c"
  from startup_world [OF flags, of env schedule] obtain w0
    where a: "Action env c initial = Running w0"
      and o: "gdnsOPT (world (main env c schedule)) = gdnsOPT w0"
      and e: "set (effects w0) \<subseteq> set (effects (world (main env c schedule)))"
      and call: "CallNewGDNSProvider (gdnsEndPT w0) (gdnsOPT w0)
             \<in> set (effects (world (main env c schedule)))"
      and ex: "proc (main env c schedule) = Exit 1 \<longleftrightarrow>
              (\<exists>err. NewGDNSProvider env (gdnsEndPT w0) (gdnsOPT w0) = Inl err)"
    by blast
  note r = Action_Running [OF a]
  have ips: "\<forall>s \<in> set (flag_endpoint_ips c). ParseIP env s = None \<longrightarrow>
            LogUnparsableIP s \<in> set (effects w0)"
    unfolding r(6) by auto
  have dns: "\<forall>s \<in> set (flag_dns_servers c). \<forall>err. ParseEndpoint env s 53 = Inl err \<longrightarrow>
            LogError err \<in> set (effects w0)"
    unfolding r(6) by (force simp: List.map_filter_def)
  from o r(2) show "EndpointIPs (gdnsOPT (world (main env c schedule))) =
           List.map_filter (ParseIP env) (flag_endpoint_ips c)" by simp
  from o r(2) show "DNSServers (gdnsOPT (world (main env c schedule))) =
           List.map_filter (\<lambda>s. case ParseEndpoint env s 53 of Inl err \<Rightarrow> None | Inr d \<Rightarrow> Some d)
             (flag_dns_servers c)" by simp
  from ips e show "\<forall>s \<in> set (flag_endpoint_ips c). ParseIP env s = None \<longrightarrow>
            LogUnparsableIP s \<in> set (effects (world (main env c schedule)))" by blast
  from dns e show "\<forall>s \<in> set (flag_dns_servers c). \<forall>err. ParseEndpoint env s 53 = Inl err \<longrightarrow>
            LogError err \<in> set (effects (world (main env c schedule)))" by blast
  from call o r(3) show "CallNewGDNSProvider (flag_endpoint c) (gdnsOPT (world (main env c schedule)))
           \<in> set (effects (world (main env c schedule)))" by simp
  from ex o r(3) show "proc (main env c schedule) = Exit 1 \<longleftrightarrow>
            (\<exists>err. NewGDNSProvider env (flag_endpoint c)
                      (gdnsOPT (world (main env c schedule))) = Inl err)" by simp
  from startup_iff_constructor_error [OF a, of schedule] o r(3)
  show "main_pc (main env c schedule) = Startup \<longleftrightarrow>
            (\<exists>err. NewGDNSProvider env (flag_endpoint c)
                      (gdnsOPT (world (main env c schedule))) = Inl err)" by simp
qed

theorem unparsable_addresses_are_logged_and_skipped_witness:
  "(flag_tcp (no_flags\<lparr>flag_tcp := True, flag_endpoint_ips := [''bogus'', ''8.8.8.8''],
                       flag_dns_servers := [''bogus'']\<rparr>) \<or>
    flag_udp (no_flags\<lparr>flag_tcp := True, flag_endpoint_ips := [''bogus'', ''8.8.8.8''],
                       flag_dns_servers := [''bogus'']\<rparr>)) \<and>
   ParseIP example_env ''bogus'' = None \<and>
   ParseEndpoint example_env ''bogus'' 53 = Inl ''unable to parse endpoint'' \<and>
   EndpointIPs (gdnsOPT (world (main example_env
       (no_flags\<lparr>flag_tcp := True, flag_endpoint_ips := [''bogus'', ''8.8.8.8''],
                 flag_dns_servers := [''bogus'']\<rparr>) [MainStep])))
     = [[8, 8, 8, 8]] \<and>
   LogUnparsableIP ''bogus'' \<in> set (effects (world (main example_env
       (no_flags\<lparr>flag_tcp := True, flag_endpoint_ips := [''bogus'', ''8.8.8.8''],
                 flag_dns_servers := [''bogus'']\<rparr>) [MainStep]))) \<and>
   LogError ''unable to parse endpoint'' \<in> set (effects (world (main example_env
       (no_flags\<lparr>flag_tcp := True, flag_endpoint_ips := [''bogus'', ''8.8.8.8''],
                 flag_dns_servers := [''bogus'']\<rparr>) [MainStep]))) \<and>
   proc (main example_env
       (no_flags\<lparr>flag_tcp := True, flag_endpoint_ips := [''bogus'', ''8.8.8.8''],
                 flag_dns_servers := [''bogus'']\<rparr>) [MainStep])
     \<noteq> Exit 1 \<and>
   main_pc (main example_env
       (no_flags\<lparr>flag_tcp := True, flag_endpoint_ips := [''bogus'', ''8.8.8.8''],
                 flag_dns_servers := [''bogus'']\<rparr>) [MainStep])
     \<noteq> Startup \<and>
   (\<not> flag_tcp (no_flags\<lparr>flag_endpoint_ips := [''bogus'']\<rparr>) \<and>
    \<not> flag_udp (no_flags\<lparr>flag_endpoint_ips := [''bogus'']\<rparr>)) \<and>
   effects (world (main example_env (no_flags\<lparr>flag_endpoint_ips := [''bogus'']\<rparr>) [MainStep]))
     = [ShowAppHelp]"
proof -
  let ?c = "no_flags\<lparr>flag_tcp := True, flag_endpoint_ips := [''bogus'', ''8.8.8.8''],
                 flag_dns_servers := [''bogus'']\<rparr>"
  let ?d = "no_flags\<lparr>flag_endpoint_ips := [''bogus'']\<rparr>"
  have f: "flag_tcp ?c \<or> flag_udp ?c" "\<not> flag_tcp ?d \<and> \<not> flag_udp ?d"
    "flag_endpoint_ips ?c = [''bogus'', ''8.8.8.8'']" "flag_dns_servers ?c = [''bogus'']"
    "flag_endpoint ?c = ''https://dns.google.com/resolve''"
    by (simp_all add: no_flags_def)
  have p: "ParseIP example_env ''bogus'' = None"
    "ParseIP example_env ''8.8.8.8'' = Some [8, 8, 8, 8]"
    "ParseEndpoint example_env ''bogus'' 53 = Inl ''unable to parse endpoint''"
    "\<And>opts. NewGDNSProvider example_env ''https://dns.google.com/resolve'' opts
       = Inr (''https://dns.google.com/resolve'', opts)"
    by (simp_all add: example_env_def example_ParseIP_def example_ParseEndpoint_def
        example_NewGDNSProvider_def)
  note t = unparsable_addresses_are_logged_and_skipped [of ?c example_env "[MainStep]"]
  note u = unparsable_addresses_are_logged_and_skipped [of ?d example_env "[MainStep]"]
  from t f(1) have t1: "EndpointIPs (gdnsOPT (world (main example_env ?c [MainStep]))) =
        List.map_filter (ParseIP example_env) (flag_endpoint_ips ?c)"
    by blast
  from t f(1) p(1) have t2: "LogUnparsableIP ''bogus''
      \<in> set (effects (world (main example_env ?c [MainStep])))"
    unfolding f(3) by simp
  from t f(1) p(3) have t3: "LogError ''unable to parse endpoint''
      \<in> set (effects (world (main example_env ?c [MainStep])))"
    unfolding f(4) by simp
  from t f(1) have t4: "proc (main example_env ?c [MainStep]) = Exit 1 \<longleftrightarrow>
         (\<exists>err. NewGDNSProvider example_env (flag_endpoint ?c)
                   (gdnsOPT (world (main example_env ?c [MainStep]))) = Inl err)"
    and t5: "main_pc (main example_env ?c [MainStep]) = Startup \<longleftrightarrow>
         (\<exists>err. NewGDNSProvider example_env (flag_endpoint ?c)
                   (gdnsOPT (world (main example_env ?c [MainStep]))) = Inl err)"
    by blast+
  from t1 have a: "EndpointIPs (gdnsOPT (world (main example_env ?c [MainStep]))) = [[8, 8, 8, 8]]"
    unfolding f(3) by (simp add: List.map_filter_def p)
  from t4 have b: "proc (main example_env ?c [MainStep]) \<noteq> Exit 1"
    unfolding f(5) by (simp add: p)
  from t5 have c: "main_pc (main example_env ?c [MainStep]) \<noteq> Startup"
    unfolding f(5) by (simp add: p)
  from u f(2) have d: "effects (world (main example_env ?d [MainStep])) = [ShowAppHelp]"
    by blast
  from f(1,2) p(1,3) a t2 t3 b c d show ?thesis by blast
qed

text \<open>
  C7, as stated, fails: with \<^verbatim>\<open>--tcp --endpoint :\<close> the tcp flag is set, the provider
  constructor rejects the URL, and the process exits with status 1 without any listener.
\<close>

theorem listener_iff_flag_counterexample:
  "flag_tcp (no_flags\<lparr>flag_tcp := True, flag_endpoint := '':''\<rparr>) \<and>
   proc (main example_env (no_flags\<lparr>flag_tcp := True, flag_endpoint := '':''\<rparr>)
           [MainStep, MainStep, ServeStep 0, ServeStep 0]) = Exit 1 \<and>
   listeners (main example_env (no_flags\<lparr>flag_tcp := True, flag_endpoint := '':''\<rparr>)
           [MainStep, MainStep, ServeStep 0, ServeStep 0]) = []"
  by (simp add: no_flags_def main_def startup_def Action_def Let_def initial_def emit_def
      zero_GDNSOptions_def example_env_def example_NewGDNSProvider_def)

text \<open>
  C7, amended. The goroutines main has started serve, on the configured listen address, a
  prefix of the enabled protocols, tcp before udp. Once main has left the loop of line 161,
  the goroutine of a protocol exists if and only if its flag is set and start-up has
  succeeded (the handler of the constructed provider is registered); after a successful
  start-up they are exactly the enabled protocols. A goroutine main has started, given its
  two steps while the process is alive, is blocked in line 43 with \<^verbatim>\<open>ListenAndServe\<close>
  running for its protocol on the listen address. When the constructor returns an error, no
  goroutine is started and no handler registered, whatever the flags are.
\<close>

theorem listeners_are_the_enabled_transports:
  "map (\<lambda>l. (net l, addr l)) (listeners (main env c schedule)) =
     take (length (listeners (main env c schedule)))
       (map (\<lambda>p. (p, flag_listen c))
          ((if flag_tcp c then [''tcp''] else []) @ (if flag_udp c then [''udp''] else []))) \<and>
   ((\<forall>ps. main_pc (main env c schedule) \<noteq> Spawning ps) \<longrightarrow>
      ((\<exists>pattern provider.
          HandleFunc pattern provider \<in> set (effects (world (main env c schedule)))) \<longrightarrow>
         map (\<lambda>l. (net l, addr l)) (listeners (main env c schedule)) =
           map (\<lambda>p. (p, flag_listen c))
             ((if flag_tcp c then [''tcp''] else []) @ (if flag_udp c then [''udp''] else []))) \<and>
      ((''tcp'', flag_listen c) \<in> (\<lambda>l. (net l, addr l)) ` set (listeners (main env c schedule))
         \<longleftrightarrow> flag_tcp c \<and>
             (\<exists>pattern provider.
                HandleFunc pattern provider \<in> set (effects (world (main env c schedule))))) \<and>
      ((''udp'', flag_listen c) \<in> (\<lambda>l. (net l, addr l)) ` set (listeners (main env c schedule))
         \<longleftrightarrow> flag_udp c \<and>
             (\<exists>pattern provider.
                HandleFunc pattern provider \<in> set (effects (world (main env c schedule)))))) \<and>
   (\<forall>i. i < length (listeners (main env c schedule)) \<and> proc (main env c schedule) = Alive \<and>
      pc (listeners (main env c schedule) ! i) = AtNotify \<longrightarrow>
        pc (listeners (main env c (schedule @ [ServeStep i, ServeStep i])) ! i) = AtReceive \<and>
        inner (listeners (main env c (schedule @ [ServeStep i, ServeStep i])) ! i)
          = InListenAndServe \<and>
        net (listeners (main env c (schedule @ [ServeStep i, ServeStep i])) ! i)
          = net (listeners (main env c schedule) ! i) \<and>
        addr (listeners (main env c (schedule @ [ServeStep i, ServeStep i])) ! i)
          = flag_listen c) \<and>
   (\<forall>endpoint opts err.
      CallNewGDNSProvider endpoint opts \<in> set (effects (world (main env c schedule))) \<and>
      NewGDNSProvider env endpoint opts = Inl err \<longrightarrow>
        listeners (main env c schedule) = [] \<and>
        (\<forall>pattern provider.
           HandleFunc pattern provider \<notin> set (effects (world (main env c schedule)))))"
proof -
  let ?s = "main env c schedule"
  let ?H = "\<exists>pattern provider. HandleFunc pattern provider \<in> set (effects (world ?s))"
  let ?ps = "(if flag_tcp c then [''tcp''] else []) @ (if flag_udp c then [''udp''] else [])"
  let ?pairs = "map (\<lambda>l. (net l, addr l)) (listeners ?s)"
  have a: "?pairs = take (length (listeners ?s)) (map (\<lambda>p. (p, flag_listen c)) ?ps)"
    and b: "(\<forall>ps. main_pc ?s \<noteq> Spawning ps) \<longrightarrow>
      (?H \<longrightarrow> ?pairs = map (\<lambda>p. (p, flag_listen c)) ?ps) \<and>
      ((''tcp'', flag_listen c) \<in> (\<lambda>l. (net l, addr l)) ` set (listeners ?s)
         \<longleftrightarrow> flag_tcp c \<and> ?H) \<and>
      ((''udp'', flag_listen c) \<in> (\<lambda>l. (net l, addr l)) ` set (listeners ?s)
         \<longleftrightarrow> flag_udp c \<and> ?H)"
    and addrs: "\<forall>l \<in> set (listeners ?s). addr l = flag_listen c"
  proof -
    show "?pairs = take (length (listeners ?s)) (map (\<lambda>p. (p, flag_listen c)) ?ps) "
    proof (cases ?H)
      case False
      then have "listeners ?s = []" by (intro no_handler_no_listener(1)) blast
      then show ?thesis by simp
    next
      case True
      then obtain pattern provider
        where "HandleFunc pattern provider \<in> set (effects (world ?s))" by blast
      from handler_in_main_effects [OF this] obtain w
        where st: "startup env c = Running w" and protos: "listenProtocols w = ?ps"
          and address: "listenAddress w = flag_listen c"
        by blast
      let ?r = "run schedule (serving w)"
      have m: "?s = ?r" by (rule main_startup_Running [OF st])
      have w: "world ?r = w" by (simp add: world_run serving_def)
      have ad: "\<forall>l \<in> set (listeners ?r). addr l = flag_listen c"
        using reachable_listener_ok [of _ schedule w] address by simp
      note p = started_prefix(1) [OF reachable_main_ok [of schedule w] ad, unfolded w protos]
      from p show ?thesis unfolding m .
    qed
    show "\<forall>l \<in> set (listeners ?s). addr l = flag_listen c"
    proof (cases ?H)
      case False
      then have "listeners ?s = []" by (intro no_handler_no_listener(1)) blast
      then show ?thesis by simp
    next
      case True
      then obtain pattern provider
        where "HandleFunc pattern provider \<in> set (effects (world ?s))" by blast
      from handler_in_main_effects [OF this] obtain w
        where st: "startup env c = Running w"
          and address: "listenAddress w = flag_listen c"
        by blast
      have m: "?s = run schedule (serving w)" by (rule main_startup_Running [OF st])
      show ?thesis
        unfolding m using reachable_listener_ok [of _ schedule w] address by simp
    qed
    show "(\<forall>ps. main_pc ?s \<noteq> Spawning ps) \<longrightarrow>
      (?H \<longrightarrow> ?pairs = map (\<lambda>p. (p, flag_listen c)) ?ps) \<and>
      ((''tcp'', flag_listen c) \<in> (\<lambda>l. (net l, addr l)) ` set (listeners ?s)
         \<longleftrightarrow> flag_tcp c \<and> ?H) \<and>
      ((''udp'', flag_listen c) \<in> (\<lambda>l. (net l, addr l)) ` set (listeners ?s)
         \<longleftrightarrow> flag_udp c \<and> ?H)"
    proof (cases ?H)
      case False
      then have "listeners ?s = []" by (intro no_handler_no_listener(1)) blast
      with False show ?thesis by simp
    next
      case True
      then obtain pattern provider
        where "HandleFunc pattern provider \<in> set (effects (world ?s))" by blast
      from handler_in_main_effects [OF this] obtain w
        where st: "startup env c = Running w" and protos: "listenProtocols w = ?ps"
          and address: "listenAddress w = flag_listen c"
        by blast
      let ?r = "run schedule (serving w)"
      have m: "?s = ?r" by (rule main_startup_Running [OF st])
      have w: "world ?r = w" by (simp add: world_run serving_def)
      have ad: "\<forall>l \<in> set (listeners ?r). addr l = flag_listen c"
        using reachable_listener_ok [of _ schedule w] address by simp
      note p = started_prefix(2) [OF reachable_main_ok [of schedule w] ad, unfolded w protos]
      show ?thesis
      proof
        assume left: "\<forall>ps. main_pc ?s \<noteq> Spawning ps"
        then have "\<forall>ps. main_pc ?r \<noteq> Spawning ps" unfolding m .
        from p [OF this] have eq: "?pairs = map (\<lambda>p. (p, flag_listen c)) ?ps"
          unfolding m .
        then have "set ?pairs = set (map (\<lambda>p. (p, flag_listen c)) ?ps)"
          by (rule arg_cong)
        then have img: "(\<lambda>l. (net l, addr l)) ` set (listeners ?s) =
            (\<lambda>p. (p, flag_listen c)) ` set ?ps"
          by (simp only: set_map)
        have "(''tcp'', flag_listen c) \<in> (\<lambda>l. (net l, addr l)) ` set (listeners ?s)
            \<longleftrightarrow> flag_tcp c"
          unfolding img by auto
        moreover have "(''udp'', flag_listen c) \<in> (\<lambda>l. (net l, addr l)) ` set (listeners ?s)
            \<longleftrightarrow> flag_udp c"
          unfolding img by auto
        ultimately show "(?H \<longrightarrow> ?pairs = map (\<lambda>p. (p, flag_listen c)) ?ps) \<and>
          ((''tcp'', flag_listen c) \<in> (\<lambda>l. (net l, addr l)) ` set (listeners ?s)
             \<longleftrightarrow> flag_tcp c \<and> ?H) \<and>
          ((''udp'', flag_listen c) \<in> (\<lambda>l. (net l, addr l)) ` set (listeners ?s)
             \<longleftrightarrow> flag_udp c \<and> ?H)"
          using True eq by simp
      qed
    qed
  qed
  have d: "pc (listeners (main env c (schedule @ [ServeStep i, ServeStep i])) ! i) = AtReceive \<and>
        inner (listeners (main env c (schedule @ [ServeStep i, ServeStep i])) ! i)
          = InListenAndServe \<and>
        net (listeners (main env c (schedule @ [ServeStep i, ServeStep i])) ! i)
          = net (listeners ?s ! i) \<and>
        addr (listeners (main env c (schedule @ [ServeStep i, ServeStep i])) ! i)
          = flag_listen c"
    if h: "i < length (listeners ?s) \<and> proc ?s = Alive \<and> pc (listeners ?s ! i) = AtNotify"
    for i
  proof -
    from h have i: "i < length (listeners ?s)" and alive: "proc ?s = Alive"
      and n: "pc (listeners ?s ! i) = AtNotify" by simp_all
    from i addrs have "addr (listeners ?s ! i) = flag_listen c" by simp
    with serve_reaches_listen [OF alive i n] show ?thesis
      by (simp only: main_is_run)
  qed
  have e: "listeners ?s = [] \<and>
        (\<forall>pattern provider. HandleFunc pattern provider \<notin> set (effects (world ?s)))"
    if h: "CallNewGDNSProvider endpoint opts \<in> set (effects (world ?s)) \<and>
      NewGDNSProvider env endpoint opts = Inl err" for endpoint opts err
  proof -
    from h have call: "CallNewGDNSProvider endpoint opts \<in> set (effects (world ?s))"
      and err: "NewGDNSProvider env endpoint opts = Inl err" by simp_all
    from constructor_error_exits(3) [OF call err] constructor_error_exits(5) [OF call err]
    show ?thesis by simp
  qed
  from a b d e show ?thesis by blast
qed

theorem listeners_are_the_enabled_transports_witness:
  "HandleFunc ''.'' (''https://dns.google.com/resolve'',
       \<lparr>PROXY = [], EDNS = [], Pad = True, Secure = True, EndpointIPs = [], DNSServers = []\<rparr>)
     \<in> set (effects (world (main example_env (no_flags\<lparr>flag_udp := True\<rparr>)
                              [MainStep, MainStep]))) \<and>
   main_pc (main example_env (no_flags\<lparr>flag_udp := True\<rparr>) [MainStep, MainStep])
     = Waiting [''udp''] \<and>
   map (\<lambda>l. (net l, addr l))
     (listeners (main example_env (no_flags\<lparr>flag_udp := True\<rparr>) [MainStep, MainStep]))
     = [(''udp'', '':5300'')] \<and>
   0 < length (listeners (main example_env (no_flags\<lparr>flag_udp := True\<rparr>) [MainStep, MainStep])) \<and>
   proc (main example_env (no_flags\<lparr>flag_udp := True\<rparr>) [MainStep, MainStep]) = Alive \<and>
   pc (listeners (main example_env (no_flags\<lparr>flag_udp := True\<rparr>) [MainStep, MainStep]) ! 0)
     = AtNotify \<and>
   inner (listeners (main example_env (no_flags\<lparr>flag_udp := True\<rparr>)
            ([MainStep, MainStep] @ [ServeStep 0, ServeStep 0])) ! 0) = InListenAndServe \<and>
   addr (listeners (main example_env (no_flags\<lparr>flag_udp := True\<rparr>)
            ([MainStep, MainStep] @ [ServeStep 0, ServeStep 0])) ! 0) = '':5300'' \<and>
   CallNewGDNSProvider '':''
     \<lparr>PROXY = [], EDNS = [], Pad = True, Secure = True, EndpointIPs = [], DNSServers = []\<rparr>
     \<in> set (effects (world (main example_env (no_flags\<lparr>flag_udp := True, flag_endpoint := '':''\<rparr>)
                              [MainStep, MainStep]))) \<and>
   NewGDNSProvider example_env '':''
     \<lparr>PROXY = [], EDNS = [], Pad = True, Secure = True, EndpointIPs = [], DNSServers = []\<rparr>
     = Inl ''missing protocol scheme'' \<and>
   listeners (main example_env (no_flags\<lparr>flag_udp := True, flag_endpoint := '':''\<rparr>)
                [MainStep, MainStep]) = []"
proof -
  let ?c = "no_flags\<lparr>flag_udp := True\<rparr>"
  let ?d = "no_flags\<lparr>flag_udp := True, flag_endpoint := '':''\<rparr>"
  let ?A = "[MainStep, MainStep]"
  let ?o = "\<lparr>PROXY = [], EDNS = [], Pad = True, Secure = True, EndpointIPs = [],
             DNSServers = []\<rparr> :: (example_ip, example_ep) GDNSOptions"
  note ev = no_flags_def main_def startup_def Action_def Let_def initial_def emit_def
      zero_GDNSOptions_def example_env_def example_NewGDNSProvider_def serving_def step_def
      main_step_def go_serve_def serve_step_def
  have h: "HandleFunc ''.'' (''https://dns.google.com/resolve'', ?o)
     \<in> set (effects (world (main example_env ?c ?A)))"
    by (simp add: ev)
  have w: "main_pc (main example_env ?c ?A) = Waiting [''udp'']"
    by (simp add: ev)
  have s: "0 < length (listeners (main example_env ?c ?A))"
    "proc (main example_env ?c ?A) = Alive"
    "pc (listeners (main example_env ?c ?A) ! 0) = AtNotify"
    by (simp_all add: ev)
  have call: "CallNewGDNSProvider '':'' ?o \<in> set (effects (world (main example_env ?d ?A)))"
    by (simp add: ev)
  have err: "NewGDNSProvider example_env '':'' ?o = Inl ''missing protocol scheme''"
    by (simp add: example_env_def example_NewGDNSProvider_def)
  have f: "flag_listen ?c = '':5300''" "flag_udp ?c" "\<not> flag_tcp ?c"
    by (simp_all add: no_flags_def)
  note t = listeners_are_the_enabled_transports [of example_env ?c ?A]
  from w have ns: "\<forall>ps. main_pc (main example_env ?c ?A) \<noteq> Spawning ps" by simp
  from t ns h have "map (\<lambda>l. (net l, addr l)) (listeners (main example_env ?c ?A)) =
        map (\<lambda>p. (p, flag_listen ?c))
          ((if flag_tcp ?c then [''tcp''] else []) @ (if flag_udp ?c then [''udp''] else []))"
    by blast
  then have a: "map (\<lambda>l. (net l, addr l)) (listeners (main example_env ?c ?A)) =
        [(''udp'', '':5300'')]"
    by (simp add: f)
  from t s have "inner (listeners (main example_env ?c (?A @ [ServeStep 0, ServeStep 0])) ! 0)
        = InListenAndServe \<and>
      addr (listeners (main example_env ?c (?A @ [ServeStep 0, ServeStep 0])) ! 0)
        = flag_listen ?c"
    by blast
  then have b: "inner (listeners (main example_env ?c (?A @ [ServeStep 0, ServeStep 0])) ! 0)
        = InListenAndServe"
    "addr (listeners (main example_env ?c (?A @ [ServeStep 0, ServeStep 0])) ! 0) = '':5300''"
    by (simp_all add: f)
  from listeners_are_the_enabled_transports [of example_env ?d ?A] call err
  have c: "listeners (main example_env ?d ?A) = []"
    by blast
  from h w a s b call err c show ?thesis by blast
qed

section \<open>Claims about the provider options\<close>

text \<open>
  C8. The options are built once, from the command line alone, and are not written after
  the provider is constructed: the options the constructor receives are the record below,
  and in every state the process and its provider reach afterwards, under every schedule
  of process events and queries and every continuation of it, the variable \<^verbatim>\<open>gdnsOPT\<close> still
  holds exactly this record, and every call of the provider has read exactly this record.
\<close>

theorem provider_options_are_never_written_again:
  assumes "CallNewGDNSProvider endpoint opts
             \<in> set (effects (world (process (engine env c schedule))))"
  shows "opts =
           \<lparr>PROXY = flag_proxy c, EDNS = flag_edns c, Pad = (\<not> flag_no_pad c),
            Secure = (\<not> flag_insecure c),
            EndpointIPs = List.map_filter (ParseIP env) (flag_endpoint_ips c),
            DNSServers = List.map_filter
              (\<lambda>s. case ParseEndpoint env s 53 of Inl err \<Rightarrow> None | Inr d \<Rightarrow> Some d)
              (flag_dns_servers c)\<rparr> \<and>
         gdnsOPT (world (process (engine env c schedule))) = opts \<and>
         (\<forall>later. gdnsOPT (world (process (engine_run later (engine env c schedule)))) = opts \<and>
            (\<forall>config \<in> set (consumed (engine_run later (engine env c schedule))).
               config = opts))"
proof -
  from assms have "CallNewGDNSProvider endpoint opts \<in> set (effects (world (main env c [])))"
    by (simp add: world_engine)
  from call_in_main_effects [OF this] obtain w0
    where a: "Action env c initial = Running w0" and o: "opts = gdnsOPT w0" by blast
  from Action_Running(1) [OF a] have "flag_tcp c \<or> flag_udp c" .
  from startup_world [OF this, of env "[]"] a
  have g: "gdnsOPT (world (main env c [])) = opts" using o by auto
  have run: "engine_run later (engine env c schedule) = engine env c (schedule @ later)"
    for later
    by (simp add: engine_def engine_run_append)
  have cons: "\<forall>config \<in> set (consumed (engine env c es)). config = opts" for es
    using consumed_engine_run
      [of "\<lparr>process = main env c [], EndpointAddressSet = None, consumed = [], written = []\<rparr>" es]
      g
    by (simp add: engine_def)
  from o Action_Running(2) [OF a] g cons show ?thesis
    by (simp add: run world_engine)
qed

theorem provider_options_are_never_written_again_witness:
  "CallNewGDNSProvider ''https://dns.google.com/resolve''
     \<lparr>PROXY = ''127.0.0.1:1080'', EDNS = [], Pad = True, Secure = False,
      EndpointIPs = [], DNSServers = [([8, 8, 8, 8], 53)]\<rparr>
     \<in> set (effects (world (process (engine example_env
           (no_flags\<lparr>flag_tcp := True, flag_proxy := ''127.0.0.1:1080'', flag_insecure := True,
                     flag_dns_servers := [''8.8.8.8'']\<rparr>)
           [ProcessEvent MainStep, ProcessEvent MainStep, ProcessEvent (ServeStep 0),
            ProcessEvent (ServeStep 0)])))) \<and>
   EndpointAddressSet (engine example_env
           (no_flags\<lparr>flag_tcp := True, flag_proxy := ''127.0.0.1:1080'', flag_insecure := True,
                     flag_dns_servers := [''8.8.8.8'']\<rparr>)
           [ProcessEvent MainStep, ProcessEvent MainStep, ProcessEvent (ServeStep 0),
            ProcessEvent (ServeStep 0)]) = None \<and>
   EndpointAddressSet (engine_run
       [Query 0 example_query example_lookup example_exchange False,
        ProcessEvent (Signal SIGINT), ProcessEvent (ServeStep 0)]
       (engine example_env
           (no_flags\<lparr>flag_tcp := True, flag_proxy := ''127.0.0.1:1080'', flag_insecure := True,
                     flag_dns_servers := [''8.8.8.8'']\<rparr>)
           [ProcessEvent MainStep, ProcessEvent MainStep, ProcessEvent (ServeStep 0),
            ProcessEvent (ServeStep 0)])) = Some [[8, 8, 4, 4]] \<and>
   consumed (engine_run
       [Query 0 example_query example_lookup example_exchange False,
        ProcessEvent (Signal SIGINT), ProcessEvent (ServeStep 0)]
       (engine example_env
           (no_flags\<lparr>flag_tcp := True, flag_proxy := ''127.0.0.1:1080'', flag_insecure := True,
                     flag_dns_servers := [''8.8.8.8'']\<rparr>)
           [ProcessEvent MainStep, ProcessEvent MainStep, ProcessEvent (ServeStep 0),
            ProcessEvent (ServeStep 0)])) =
     [\<lparr>PROXY = ''127.0.0.1:1080'', EDNS = [], Pad = True, Secure = False,
       EndpointIPs = [], DNSServers = [([8, 8, 8, 8], 53)]\<rparr>] \<and>
   gdnsOPT (world (process (engine_run
       [Query 0 example_query example_lookup example_exchange False,
        ProcessEvent (Signal SIGINT), ProcessEvent (ServeStep 0)]
       (engine example_env
           (no_flags\<lparr>flag_tcp := True, flag_proxy := ''127.0.0.1:1080'', flag_insecure := True,
                     flag_dns_servers := [''8.8.8.8'']\<rparr>)
           [ProcessEvent MainStep, ProcessEvent MainStep, ProcessEvent (ServeStep 0),
            ProcessEvent (ServeStep 0)])))) =
     \<lparr>PROXY = ''127.0.0.1:1080'', EDNS = [], Pad = True, Secure = False,
      EndpointIPs = [], DNSServers = [([8, 8, 8, 8], 53)]\<rparr>"
proof -
  let ?c = "no_flags\<lparr>flag_tcp := True, flag_proxy := ''127.0.0.1:1080'', flag_insecure := True,
                     flag_dns_servers := [''8.8.8.8'']\<rparr>"
  let ?A = "[ProcessEvent MainStep, ProcessEvent MainStep, ProcessEvent (ServeStep 0),
            ProcessEvent (ServeStep 0)] :: (example_ip, example_ep) engine_event list"
  let ?B = "[Query 0 example_query example_lookup example_exchange False,
        ProcessEvent (Signal SIGINT), ProcessEvent (ServeStep 0)]"
  let ?o = "\<lparr>PROXY = ''127.0.0.1:1080'', EDNS = [], Pad = True, Secure = False,
      EndpointIPs = [], DNSServers = [([8, 8, 8, 8], 53)]\<rparr>
      :: (example_ip, example_ep) GDNSOptions"
  note ev = no_flags_def main_def startup_def Action_def Let_def initial_def emit_def
      zero_GDNSOptions_def example_env_def example_NewGDNSProvider_def example_ParseIP_def
      example_ParseEndpoint_def serving_def step_def main_step_def go_serve_def serve_step_def
      deliver_def engine_def engine_step_def serve_query_def Provider_resolve_def
      Resolver_resolve_def example_lookup_def example_exchange_def example_query_def
  have h: "CallNewGDNSProvider ''https://dns.google.com/resolve'' ?o
     \<in> set (effects (world (process (engine example_env ?c ?A))))"
    by (simp add: world_engine world_main startup_def Action_def Let_def initial_def emit_def
      zero_GDNSOptions_def example_env_def example_NewGDNSProvider_def example_ParseIP_def
      example_ParseEndpoint_def no_flags_def)
  have before: "EndpointAddressSet (engine example_env ?c ?A) = None"
    by (simp add: ev)
  have after: "EndpointAddressSet (engine_run ?B (engine example_env ?c ?A)) = Some [[8, 8, 4, 4]]"
    by (simp add: ev)
  have read: "consumed (engine_run ?B (engine example_env ?c ?A)) = [?o]"
    by (simp add: ev)
  from provider_options_are_never_written_again [OF h]
  have "gdnsOPT (world (process (engine_run ?B (engine example_env ?c ?A)))) = ?o"
    by blast
  with h before after read show ?thesis by blast
qed

section \<open>Claims about shutdown\<close>

text \<open>
  C5. The code misses what the claim says. Each \<^verbatim>\<open>serve\<close> registers its own channel, inside
  its own goroutine (line 32), and the channel has no buffer (line 31), so a signal reaches
  only the listeners that are blocked in line 43 at that moment. With \<^verbatim>\<open>--tcp --udp\<close>, let
  the interrupt arrive when main has started both goroutines, the tcp one is blocked in line
  43 and the udp one has not yet run: tcp shuts down and notifies main; the udp goroutine
  then registers its channel and blocks in line 43 with nothing received, \<^verbatim>\<open>ListenAndServe\<close>
  running and \<^verbatim>\<open>Shutdown\<close> never called; main stays in its second receive and the process
  stays alive. And when the interrupt arrives before either goroutine has run, no channel is
  registered: the signal kills the process and no \<^verbatim>\<open>Shutdown\<close> is called.
\<close>

theorem signal_during_startup_misses_listeners:
  "map pc (listeners (main example_env (no_flags\<lparr>flag_tcp := True, flag_udp := True\<rparr>)
     [MainStep, MainStep, MainStep, ServeStep 0, ServeStep 0]))
     = [AtReceive, AtNotify] \<and>
   map pc (listeners (main example_env (no_flags\<lparr>flag_tcp := True, flag_udp := True\<rparr>)
     [MainStep, MainStep, MainStep, ServeStep 0, ServeStep 0, Signal SIGINT, ServeStep 0,
      SendServers 0, ServeStep 1, ServeStep 1, ServeStep 1, SendServers 1, MainStep]))
     = [Done, AtReceive] \<and>
   map inner (listeners (main example_env (no_flags\<lparr>flag_tcp := True, flag_udp := True\<rparr>)
     [MainStep, MainStep, MainStep, ServeStep 0, ServeStep 0, Signal SIGINT, ServeStep 0,
      SendServers 0, ServeStep 1, ServeStep 1, ServeStep 1, SendServers 1, MainStep]))
     = [InListenAndServe, InListenAndServe] \<and>
   map shutdown_called (listeners (main example_env (no_flags\<lparr>flag_tcp := True, flag_udp := True\<rparr>)
     [MainStep, MainStep, MainStep, ServeStep 0, ServeStep 0, Signal SIGINT, ServeStep 0,
      SendServers 0, ServeStep 1, ServeStep 1, ServeStep 1, SendServers 1, MainStep]))
     = [True, False] \<and>
   map received (listeners (main example_env (no_flags\<lparr>flag_tcp := True, flag_udp := True\<rparr>)
     [MainStep, MainStep, MainStep, ServeStep 0, ServeStep 0, Signal SIGINT, ServeStep 0,
      SendServers 0, ServeStep 1, ServeStep 1, ServeStep 1, SendServers 1, MainStep]))
     = [Some SIGINT, None] \<and>
   proc (main example_env (no_flags\<lparr>flag_tcp := True, flag_udp := True\<rparr>)
     [MainStep, MainStep, MainStep, ServeStep 0, ServeStep 0, Signal SIGINT, ServeStep 0,
      SendServers 0, ServeStep 1, ServeStep 1, ServeStep 1, SendServers 1, MainStep]) = Alive \<and>
   main_pc (main example_env (no_flags\<lparr>flag_tcp := True, flag_udp := True\<rparr>)
     [MainStep, MainStep, MainStep, ServeStep 0, ServeStep 0, Signal SIGINT, ServeStep 0,
      SendServers 0, ServeStep 1, ServeStep 1, ServeStep 1, SendServers 1, MainStep])
     = Waiting [''udp''] \<and>
   map pc (listeners (main example_env (no_flags\<lparr>flag_tcp := True, flag_udp := True\<rparr>)
     [MainStep, MainStep, MainStep, Signal SIGINT, ServeStep 0, ServeStep 0, ServeStep 0]))
     = [AtNotify, AtNotify] \<and>
   map shutdown_called (listeners (main example_env (no_flags\<lparr>flag_tcp := True, flag_udp := True\<rparr>)
     [MainStep, MainStep, MainStep, Signal SIGINT, ServeStep 0, ServeStep 0, ServeStep 0]))
     = [False, False] \<and>
   proc (main example_env (no_flags\<lparr>flag_tcp := True, flag_udp := True\<rparr>)
     [MainStep, MainStep, MainStep, Signal SIGINT, ServeStep 0, ServeStep 0, ServeStep 0])
     = Killed SIGINT"
  by (simp add: no_flags_def main_def startup_def Action_def Let_def initial_def emit_def
      zero_GDNSOptions_def example_env_def example_NewGDNSProvider_def serving_def step_def
      main_step_def go_serve_def serve_step_def deliver_def)

text \<open>
  C10. Let a listener be blocked in line 43 while its \<^verbatim>\<open>ListenAndServe\<close> runs, and let that
  call return an error. Then the inner goroutine goes to send \<^verbatim>\<open>SIGTERM\<close> on the listener's own
  channel; the send is received by this listener's \<^verbatim>\<open>serve\<close>, which calls \<^verbatim>\<open>Shutdown\<close> and
  returns as after a signal; every other listener is exactly as before, main is where it was
  and the process is alive; and however the schedule goes on, when main has returned every
  listener goroutine has ended, after calling \<^verbatim>\<open>Shutdown\<close>.
\<close>

theorem listen_failure_stops_only_that_listener:
  assumes "i < length (listeners (main env c schedule))"
    and "pc (listeners (main env c schedule) ! i) = AtReceive"
    and "inner (listeners (main env c schedule) ! i) = InListenAndServe"
  shows "inner (listeners (main env c (schedule @ [ListenAndServeReturns i True])) ! i)
           = AtSendSIGTERM \<and>
         pc (listeners (main env c (schedule @ [ListenAndServeReturns i True])) ! i)
           = AtReceive \<and>
         received (listeners (main env c
           (schedule @ [ListenAndServeReturns i True, SendSIGTERM i])) ! i) = Some SIGTERM \<and>
         pc (listeners (main env c
           (schedule @ [ListenAndServeReturns i True, SendSIGTERM i])) ! i) = AtShutdown \<and>
         shutdown_called (listeners (main env c
           (schedule @ [ListenAndServeReturns i True, SendSIGTERM i, ServeStep i])) ! i) \<and>
         pc (listeners (main env c
           (schedule @ [ListenAndServeReturns i True, SendSIGTERM i, ServeStep i])) ! i) = AtSend \<and>
         (\<forall>j. j \<noteq> i \<longrightarrow>
            listeners (main env c
              (schedule @ [ListenAndServeReturns i True, SendSIGTERM i, ServeStep i])) ! j =
            listeners (main env c schedule) ! j) \<and>
         proc (main env c
           (schedule @ [ListenAndServeReturns i True, SendSIGTERM i, ServeStep i])) = Alive \<and>
         main_pc (main env c
           (schedule @ [ListenAndServeReturns i True, SendSIGTERM i, ServeStep i])) =
           main_pc (main env c schedule) \<and>
         (\<forall>later. main_pc (main env c
             (schedule @ [ListenAndServeReturns i True, SendSIGTERM i, ServeStep i] @ later))
               = MainReturned \<longrightarrow>
            (\<forall>l \<in> set (listeners (main env c
               (schedule @ [ListenAndServeReturns i True, SendSIGTERM i, ServeStep i] @ later))).
                 pc l = Done \<and> shutdown_called l))"
proof -
  let ?s = "main env c schedule"
  from assms(1) have ne: "listeners ?s \<noteq> []" by auto
  then obtain w where m: "\<And>es. main env c es = run es (serving w)"
    by (cases "startup env c") (auto simp: main_def)
  have app: "main env c (schedule @ es) = run es ?s" for es
    by (simp add: m run_append)
  have inv: "serving_inv ?s" unfolding m by (rule serving_inv_reachable)
  have alive: "proc ?s = Alive" by (rule receiving_is_alive [OF inv assms(1,2)])
  note st = listen_failure_steps [OF alive assms]
  have later: "\<forall>l \<in> set (listeners (main env c es)). pc l = Done \<and> shutdown_called l"
    if "main_pc (main env c es) = MainReturned" for es
  proof -
    have "serving_inv (main env c es)" unfolding m by (rule serving_inv_reachable)
    with that show ?thesis
      by (auto simp: serving_inv_def main_ok_def listener_ok_def)
  qed
  from st(1,2) have a:
    "inner (listeners (main env c (schedule @ [ListenAndServeReturns i True])) ! i) = AtSendSIGTERM"
    "pc (listeners (main env c (schedule @ [ListenAndServeReturns i True])) ! i) = AtReceive"
    by (simp_all only: app)
  from st(3,4) have b:
    "received (listeners (main env c
        (schedule @ [ListenAndServeReturns i True, SendSIGTERM i])) ! i) = Some SIGTERM"
    "pc (listeners (main env c
        (schedule @ [ListenAndServeReturns i True, SendSIGTERM i])) ! i) = AtShutdown"
    by (simp_all only: app)
  from st(5,6,8,9) have c:
    "shutdown_called (listeners (main env c
        (schedule @ [ListenAndServeReturns i True, SendSIGTERM i, ServeStep i])) ! i)"
    "pc (listeners (main env c
        (schedule @ [ListenAndServeReturns i True, SendSIGTERM i, ServeStep i])) ! i) = AtSend"
    "proc (main env c
        (schedule @ [ListenAndServeReturns i True, SendSIGTERM i, ServeStep i])) = Alive"
    "main_pc (main env c
        (schedule @ [ListenAndServeReturns i True, SendSIGTERM i, ServeStep i])) = main_pc ?s"
    by (simp_all only: app)
  have d: "\<forall>j. j \<noteq> i \<longrightarrow>
      listeners (main env c
        (schedule @ [ListenAndServeReturns i True, SendSIGTERM i, ServeStep i])) ! j =
      listeners ?s ! j"
    using st(7) by (simp only: app) blast
  from a b c d later show ?thesis by blast
qed

theorem listen_failure_stops_only_that_listener_witness:
  "0 < length (listeners (main example_env (no_flags\<lparr>flag_tcp := True, flag_udp := True\<rparr>)
         [MainStep, MainStep, MainStep, ServeStep 0, ServeStep 0, ServeStep 1, ServeStep 1])) \<and>
   pc (listeners (main example_env (no_flags\<lparr>flag_tcp := True, flag_udp := True\<rparr>)
         [MainStep, MainStep, MainStep, ServeStep 0, ServeStep 0, ServeStep 1, ServeStep 1]) ! 0)
     = AtReceive \<and>
   inner (listeners (main example_env (no_flags\<lparr>flag_tcp := True, flag_udp := True\<rparr>)
         [MainStep, MainStep, MainStep, ServeStep 0, ServeStep 0, ServeStep 1, ServeStep 1]) ! 0)
     = InListenAndServe \<and>
   received (listeners (main example_env (no_flags\<lparr>flag_tcp := True, flag_udp := True\<rparr>)
         ([MainStep, MainStep, MainStep, ServeStep 0, ServeStep 0, ServeStep 1, ServeStep 1] @
          [ListenAndServeReturns 0 True, SendSIGTERM 0])) ! 0) = Some SIGTERM \<and>
   shutdown_called (listeners (main example_env (no_flags\<lparr>flag_tcp := True, flag_udp := True\<rparr>)
         ([MainStep, MainStep, MainStep, ServeStep 0, ServeStep 0, ServeStep 1, ServeStep 1] @
          [ListenAndServeReturns 0 True, SendSIGTERM 0, ServeStep 0])) ! 0) \<and>
   pc (listeners (main example_env (no_flags\<lparr>flag_tcp := True, flag_udp := True\<rparr>)
         ([MainStep, MainStep, MainStep, ServeStep 0, ServeStep 0, ServeStep 1, ServeStep 1] @
          [ListenAndServeReturns 0 True, SendSIGTERM 0, ServeStep 0])) ! 1) = AtReceive \<and>
   proc (main example_env (no_flags\<lparr>flag_tcp := True, flag_udp := True\<rparr>)
         ([MainStep, MainStep, MainStep, ServeStep 0, ServeStep 0, ServeStep 1, ServeStep 1] @
          [ListenAndServeReturns 0 True, SendSIGTERM 0, ServeStep 0])) = Alive"
proof -
  let ?c = "no_flags\<lparr>flag_tcp := True, flag_udp := True\<rparr>"
  let ?A = "[MainStep, MainStep, MainStep, ServeStep 0, ServeStep 0, ServeStep 1, ServeStep 1]"
  note ev = no_flags_def main_def startup_def Action_def Let_def initial_def emit_def
      zero_GDNSOptions_def example_env_def example_NewGDNSProvider_def serving_def step_def
      main_step_def go_serve_def serve_step_def
  have h: "0 < length (listeners (main example_env ?c ?A))"
    "pc (listeners (main example_env ?c ?A) ! 0) = AtReceive"
    "inner (listeners (main example_env ?c ?A) ! 0) = InListenAndServe"
    by (simp_all add: ev)
  have other: "pc (listeners (main example_env ?c ?A) ! 1) = AtReceive"
    by (simp add: ev)
  note t = listen_failure_stops_only_that_listener [OF h]
  from t have "listeners (main example_env ?c
      (?A @ [ListenAndServeReturns 0 True, SendSIGTERM 0, ServeStep 0])) ! 1 =
      listeners (main example_env ?c ?A) ! 1"
    by simp
  with other have "pc (listeners (main example_env ?c
      (?A @ [ListenAndServeReturns 0 True, SendSIGTERM 0, ServeStep 0])) ! 1) = AtReceive"
    by simp
  with t h show ?thesis by blast
qed

section \<open>Claims about the handler\<close>

text \<open>
  C3. Whatever the provider returns for a query, an answer, an error or nothing before the
  deadline, the response the handler writes has the transaction ID of the query and the
  question section of the query.
\<close>

theorem response_echoes_id_and_question:
  "TransactionID (Handle resolve q) = TransactionID q \<and>
   Question (Handle resolve q) = Question q"
  by (simp add: Handle_def servfail_def assemble_def split: Resolution.splits)

text \<open>
  C4. When the provider surfaces an error for a query (any of the three) or the deadline
  expires, the handler writes a response with response code SERVFAIL, the transaction ID and
  the question of the query, and no record. The handler is total and its result is a DNS
  response, so every query is answered and no error value reaches the client.
\<close>

theorem provider_failure_is_answered_with_servfail:
  assumes "(\<exists>e. resolve q = Failed e) \<or> resolve q = DeadlineExpired"
  shows "ResponseCode (Handle resolve q) = SERVFAIL \<and>
         TransactionID (Handle resolve q) = TransactionID q \<and>
         Question (Handle resolve q) = Question q \<and>
         Answers (Handle resolve q) = []"
  using assms by (auto simp: Handle_def servfail_def)

theorem provider_failure_is_answered_with_servfail_witness:
  "((\<exists>e. failing_provider example_query = Failed e) \<or>
      failing_provider example_query = DeadlineExpired) \<and>
   ResponseCode (Handle failing_provider example_query) = 2 \<and>
   TransactionID (Handle failing_provider example_query) = 4660 \<and>
   Question (Handle failing_provider example_query)
     = [\<lparr>Name = ''example.com.'', QType = 1, QClass = 1\<rparr>]"
  using provider_failure_is_answered_with_servfail
    [of failing_provider example_query]
  by (simp add: example_query_def SERVFAIL_def failing_provider_def)

end
